theory Spec2Isabelle
  imports Complex_Main "HOL-Library.Word"
begin

section \<open>Basic types\<close>

text \<open>
  Machine integers are words of the width the source declares: \<open>uint64_t\<close> is
  \<open>64 word\<close>, \<open>uint32_t\<close> is \<open>32 word\<close>; their arithmetic wraps around as in C++.
  \<open>size_t\<close> values are only ever container sizes and limits compared with them; they are
  \<open>nat\<close>. A \<open>double\<close> is modelled as a \<open>real\<close>: rounding, infinities and NaN are
  outside the model.
\<close>

type_synonym u64 = "64 word"
type_synonym u32 = "32 word"

text \<open>
  Modelled from the spec: \<open>Point\<close> (source/Point.h is not among the sources) is a
  2-D real vector, two doubles, with the componentwise difference, sum and scaling and the
  Euclidean length.
\<close>

record Point =
  X :: real
  Y :: real

definition Point0 :: Point where
  "Point0 = \<lparr>X = 0, Y = 0\<rparr>"

definition point_sub :: "Point \<Rightarrow> Point \<Rightarrow> Point" where
  "point_sub a b = \<lparr>X = X a - X b, Y = Y a - Y b\<rparr>"

definition point_add :: "Point \<Rightarrow> Point \<Rightarrow> Point" where
  "point_add a b = \<lparr>X = X a + X b, Y = Y a + Y b\<rparr>"

definition point_scale :: "Point \<Rightarrow> real \<Rightarrow> Point" where
  "point_scale a s = \<lparr>X = X a * s, Y = Y a * s\<rparr>"

definition Length :: "Point \<Rightarrow> real" where
  "Length a = sqrt (X a * X a + Y a * Y a)"


section \<open>PlayerCommand (multiplayer/PlayerCommand.h)\<close>

text \<open>
  \<open>EsUuid\<close> and \<open>Command\<close> are declared outside the sources at hand. The identifier
  type is the type variable \<open>'u\<close>, and its \<open>ToString\<close> is a parameter of every function
  that calls it; the control word is the type variable \<open>'c\<close>.
\<close>

record ('u, 'c) PlayerCommand =
  playerUUID :: 'u
  gameTick :: u64
  command :: 'c
  targetPoint :: Point
  hasTargetPoint :: bool
  sequenceNumber :: u32

definition cmd_less :: "('u, 'c) PlayerCommand \<Rightarrow> ('u, 'c) PlayerCommand \<Rightarrow> bool" where
  "cmd_less a b =
     (if gameTick a \<noteq> gameTick b then gameTick a < gameTick b
      else sequenceNumber a < sequenceNumber b)"

definition cmd_eq :: "('u, 'c) PlayerCommand \<Rightarrow> ('u, 'c) PlayerCommand \<Rightarrow> bool" where
  "cmd_eq a b =
     (playerUUID a = playerUUID b \<and> gameTick a = gameTick b \<and>
      sequenceNumber a = sequenceNumber b)"

definition IsValid :: "('u \<Rightarrow> string) \<Rightarrow> ('u, 'c) PlayerCommand \<Rightarrow> bool" where
  "IsValid ToString c =
     (if ToString (playerUUID c) = [] then False
      else if gameTick c > 1000000000 then False
      else True)"


section \<open>CommandValidator (multiplayer/CommandValidator.cpp)\<close>

datatype Result =
  VALID | INVALID_PLAYER | INVALID_TICK | TOO_OLD | TOO_FUTURE | RATE_LIMITED | MALFORMED

record RateLimitData =
  lastCommandTime :: u64
  commandsInWindow :: u32
  windowStartTime :: u64

definition RateLimitData0 :: RateLimitData where
  "RateLimitData0 = \<lparr>lastCommandTime = 0, commandsInWindow = 0, windowStartTime = 0\<rparr>"

record 'u CommandValidator =
  playerRateLimits :: "'u \<rightharpoonup> RateLimitData"
  maxPastTicks :: u64
  maxFutureTicks :: u64
  maxCommandsPerSecond :: u32
  totalCommands :: u64
  rejectedCommands :: u64

definition CommandValidator0 :: "'u CommandValidator" where
  "CommandValidator0 =
     \<lparr>playerRateLimits = Map.empty, maxPastTicks = 60, maxFutureTicks = 60,
      maxCommandsPerSecond = 120, totalCommands = 0, rejectedCommands = 0\<rparr>"

definition RATE_LIMIT_WINDOW_MS :: u64 where
  "RATE_LIMIT_WINDOW_MS = 1000"

text \<open>\<open>playerRateLimits[playerUUID]\<close> default-constructs a missing entry.\<close>

definition rate_entry :: "'u CommandValidator \<Rightarrow> 'u \<Rightarrow> RateLimitData" where
  "rate_entry v uuid =
     (case playerRateLimits v uuid of None \<Rightarrow> RateLimitData0 | Some d \<Rightarrow> d)"

definition CheckRateLimit ::
  "'u CommandValidator \<Rightarrow> 'u \<Rightarrow> u64 \<Rightarrow> bool \<times> 'u CommandValidator" where
  "CheckRateLimit v uuid currentTime =
     (let data = rate_entry v uuid;
          data1 = (if currentTime - windowStartTime data \<ge> RATE_LIMIT_WINDOW_MS
                   then data\<lparr>windowStartTime := currentTime, commandsInWindow := 0\<rparr>
                   else data);
          data2 = data1\<lparr>commandsInWindow := commandsInWindow data1 + 1,
                        lastCommandTime := currentTime\<rparr>;
          commandsPerSecond =
            real (unat (commandsInWindow data2)) * 1000 / real (unat RATE_LIMIT_WINDOW_MS);
          v' = v\<lparr>playerRateLimits := (playerRateLimits v)(uuid \<mapsto> data2)\<rparr>
      in if commandsPerSecond > real (unat (maxCommandsPerSecond v))
         then (False, v') else (True, v'))"

definition reject :: "'u CommandValidator \<Rightarrow> 'u CommandValidator" where
  "reject v = v\<lparr>rejectedCommands := rejectedCommands v + 1\<rparr>"

text \<open>
  \<open>now\<close> is the reading of \<open>steady_clock\<close> in milliseconds that the function takes
  when it reaches the rate limiter.
\<close>

definition ValidateCommand ::
  "('u \<Rightarrow> string) \<Rightarrow> 'u CommandValidator \<Rightarrow> ('u, 'c) PlayerCommand \<Rightarrow> u64 \<Rightarrow> u64
     \<Rightarrow> Result \<times> 'u CommandValidator" where
  "ValidateCommand ToString v c currentTick now =
     (let v1 = v\<lparr>totalCommands := totalCommands v + 1\<rparr>
      in if \<not> IsValid ToString c then (MALFORMED, reject v1)
         else if ToString (playerUUID c) = [] then (INVALID_PLAYER, reject v1)
         else if gameTick c < currentTick - maxPastTicks v1 then (TOO_OLD, reject v1)
         else if gameTick c > currentTick + maxFutureTicks v1 then (TOO_FUTURE, reject v1)
         else (case CheckRateLimit v1 (playerUUID c) now of
                 (ok, v2) \<Rightarrow> if \<not> ok then (RATE_LIMITED, reject v2) else (VALID, v2)))"

text \<open>A run of the validator over a sequence of calls: command, current tick, clock.\<close>

fun ValidateAll ::
  "('u \<Rightarrow> string) \<Rightarrow> 'u CommandValidator \<Rightarrow> (('u, 'c) PlayerCommand \<times> u64 \<times> u64) list
     \<Rightarrow> Result list \<times> 'u CommandValidator" where
  "ValidateAll ToString v [] = ([], v)"
| "ValidateAll ToString v ((c, currentTick, now) # calls) =
     (case ValidateCommand ToString v c currentTick now of
        (r, v') \<Rightarrow> (case ValidateAll ToString v' calls of (rs, v'') \<Rightarrow> (r # rs, v'')))"

text \<open>The number of calls of player \<open>p\<close> that were answered \<open>VALID\<close>.\<close>

definition valid_count ::
  "'u \<Rightarrow> (('u, 'c) PlayerCommand \<times> u64 \<times> u64) list \<Rightarrow> Result list \<Rightarrow> nat" where
  "valid_count p calls rs =
     length (filter (\<lambda>((c, currentTick, now), r). playerUUID c = p \<and> r = VALID) (zip calls rs))"

text \<open>
  The same count restricted to the calls whose clock reading lies in the one-second span
  that starts at \<open>w\<close>.
\<close>

definition valid_in_span ::
  "'u \<Rightarrow> u64 \<Rightarrow> (('u, 'c) PlayerCommand \<times> u64 \<times> u64) list \<Rightarrow> Result list \<Rightarrow> nat" where
  "valid_in_span p w calls rs =
     length (filter (\<lambda>((c, currentTick, now), r).
               playerUUID c = p \<and> r = VALID \<and> w \<le> now \<and> now - w < 1000) (zip calls rs))"

subsection \<open>Concrete inputs\<close>

definition cmd_at :: "string \<Rightarrow> u64 \<Rightarrow> u32 \<Rightarrow> (string, unit) PlayerCommand" where
  "cmd_at p t s = \<lparr>playerUUID = p, gameTick = t, command = (), targetPoint = Point0,
                   hasTargetPoint = False, sequenceNumber = s\<rparr>"

definition limit2 :: "string CommandValidator" where
  "limit2 = CommandValidator0\<lparr>maxCommandsPerSecond := 2\<rparr>"

definition burst :: "((string, unit) PlayerCommand \<times> u64 \<times> u64) list" where
  "burst = [(cmd_at ''p1'' 100 0, 100, 1000), (cmd_at ''p1'' 100 1, 100, 1999),
            (cmd_at ''p1'' 100 2, 100, 2000), (cmd_at ''p1'' 100 3, 100, 2001)]"

definition after_open :: "string CommandValidator" where
  "after_open = snd (ValidateCommand (\<lambda>s. s) limit2 (cmd_at ''p1'' 100 0) 100 5000)"

definition in_window_calls :: "((string, unit) PlayerCommand \<times> u64 \<times> u64) list" where
  "in_window_calls = [(cmd_at ''p1'' 100 1, 100, 5100), (cmd_at ''p1'' 100 2, 100, 5200),
                      (cmd_at ''p2'' 100 1, 100, 5250), (cmd_at ''p1'' 100 3, 100, 5999)]"

section \<open>CommandBuffer (multiplayer/CommandBuffer.cpp)\<close>

text \<open>
  \<open>commandQueue\<close> is a \<open>std::multimap\<close> keyed by tick: a list of key-value pairs in key
  order, in which \<open>emplace\<close> puts a new pair behind every pair whose key is not greater
  (the upper bound of the key), and \<open>equal_range\<close> is the run from the lower to the upper
  bound of a key.
\<close>

record ('u, 'c) CommandBuffer =
  commandQueue :: "(u64 \<times> ('u, 'c) PlayerCommand) list"
  playerCommands :: "'u \<rightharpoonup> ('u, 'c) PlayerCommand list"
  maxBufferSize :: nat

definition CommandBuffer0 :: "('u, 'c) CommandBuffer" where
  "CommandBuffer0 = \<lparr>commandQueue = [], playerCommands = Map.empty, maxBufferSize = 10000\<rparr>"

definition SetMaxBufferSize :: "('u, 'c) CommandBuffer \<Rightarrow> nat \<Rightarrow> ('u, 'c) CommandBuffer" where
  "SetMaxBufferSize b maxSize = b\<lparr>maxBufferSize := maxSize\<rparr>"

fun multimap_emplace :: "u64 \<Rightarrow> 'v \<Rightarrow> (u64 \<times> 'v) list \<Rightarrow> (u64 \<times> 'v) list" where
  "multimap_emplace k v [] = [(k, v)]"
| "multimap_emplace k v ((k', v') # q) =
     (if k < k' then (k, v) # (k', v') # q else (k', v') # multimap_emplace k v q)"

definition equal_range :: "u64 \<Rightarrow> (u64 \<times> 'v) list \<Rightarrow> (u64 \<times> 'v) list" where
  "equal_range k q = takeWhile (\<lambda>e. \<not> k < fst e) (dropWhile (\<lambda>e. fst e < k) q)"

fun any_equal :: "('u, 'c) PlayerCommand \<Rightarrow> ('u, 'c) PlayerCommand list \<Rightarrow> bool" where
  "any_equal c [] = False"
| "any_equal c (existing # rest) = (if cmd_eq existing c then True else any_equal c rest)"

definition IsDuplicate :: "('u, 'c) CommandBuffer \<Rightarrow> ('u, 'c) PlayerCommand \<Rightarrow> bool" where
  "IsDuplicate b c =
     (case playerCommands b (playerUUID c) of
        None \<Rightarrow> False
      | Some cs \<Rightarrow> any_equal c cs)"

definition AddCommand ::
  "('u \<Rightarrow> string) \<Rightarrow> ('u, 'c) CommandBuffer \<Rightarrow> ('u, 'c) PlayerCommand
     \<Rightarrow> bool \<times> ('u, 'c) CommandBuffer" where
  "AddCommand ToString b c =
     (if \<not> IsValid ToString c then (False, b)
      else if length (commandQueue b) \<ge> maxBufferSize b then (False, b)
      else if IsDuplicate b c then (False, b)
      else (True,
            b\<lparr>commandQueue := multimap_emplace (gameTick c) c (commandQueue b),
              playerCommands := (playerCommands b)(playerUUID c \<mapsto>
                 (case playerCommands b (playerUUID c) of None \<Rightarrow> [] | Some cs \<Rightarrow> cs) @ [c])\<rparr>))"

definition GetCommandsForTick ::
  "('u, 'c) CommandBuffer \<Rightarrow> u64 \<Rightarrow> ('u, 'c) PlayerCommand list" where
  "GetCommandsForTick b t = map snd (equal_range t (commandQueue b))"

text \<open>A sequence of \<open>AddCommand\<close> calls, with the answer of each, and the commands that were taken.\<close>

fun AddAll ::
  "('u \<Rightarrow> string) \<Rightarrow> ('u, 'c) CommandBuffer \<Rightarrow> ('u, 'c) PlayerCommand list
     \<Rightarrow> bool list \<times> ('u, 'c) CommandBuffer" where
  "AddAll ToString b [] = ([], b)"
| "AddAll ToString b (c # cs) =
     (case AddCommand ToString b c of
        (ok, b') \<Rightarrow> (case AddAll ToString b' cs of (oks, b'') \<Rightarrow> (ok # oks, b'')))"

definition accepted :: "('u, 'c) PlayerCommand list \<Rightarrow> bool list \<Rightarrow> ('u, 'c) PlayerCommand list" where
  "accepted cs oks = map fst (filter snd (zip cs oks))"

subsection \<open>Concrete inputs\<close>

definition two_out_of_order :: "(string, unit) PlayerCommand list" where
  "two_out_of_order = [cmd_at ''p1'' 5 2, cmd_at ''p1'' 5 1]"

section \<open>GameState (GameState.cpp)\<close>

text \<open>
  The classes of the world's content are declared outside the sources at hand; they are
  opaque types here, and the member functions that \<open>Step\<close> calls on them are parameters,
  collected in a record. An owning pointer that can be null is an \<open>option\<close>.
\<close>

typedecl System
typedecl Ship
typedecl Projectile
typedecl Flotsam
typedecl Visual
typedecl AsteroidField

record World_Ops =
  ShipMove :: "Ship \<Rightarrow> Visual list \<Rightarrow> Flotsam option list
                 \<Rightarrow> Ship \<times> Visual list \<times> Flotsam option list"
  IsDead :: "Projectile \<Rightarrow> bool"
  VisualMove :: "Visual \<Rightarrow> Visual"
  AsteroidStep :: "AsteroidField \<Rightarrow> Visual list \<Rightarrow> Flotsam option list \<Rightarrow> u64
                     \<Rightarrow> AsteroidField \<times> Visual list \<times> Flotsam option list"

text \<open>The tick of the world is the field \<open>gameTick\<close> of the class.\<close>

record GameState =
  currentSystem :: "System option"
  ships :: "Ship option list"
  projectiles :: "Projectile list"
  flotsam :: "Flotsam option list"
  visuals :: "Visual list"
  asteroids :: "AsteroidField option"
  worldTick :: u64

definition GameState0 :: GameState where
  "GameState0 = \<lparr>currentSystem = None, ships = [], projectiles = [], flotsam = [],
                  visuals = [], asteroids = None, worldTick = 0\<rparr>"

definition SetGameTick :: "GameState \<Rightarrow> u64 \<Rightarrow> GameState" where
  "SetGameTick g tick = g\<lparr>worldTick := tick\<rparr>"

text \<open>The copy constructor: a deep copy that leaves null ships and flotsam out.\<close>

definition copy_GameState :: "GameState \<Rightarrow> GameState" where
  "copy_GameState other =
     \<lparr>currentSystem = currentSystem other,
      ships = filter (\<lambda>ship. ship \<noteq> None) (ships other),
      projectiles = projectiles other,
      flotsam = filter (\<lambda>item. item \<noteq> None) (flotsam other),
      visuals = visuals other,
      asteroids = asteroids other,
      worldTick = worldTick other\<rparr>"

fun move_ships ::
  "World_Ops \<Rightarrow> Ship option list \<Rightarrow> Visual list \<Rightarrow> Flotsam option list
     \<Rightarrow> Ship option list \<times> Visual list \<times> Flotsam option list" where
  "move_ships ops [] vs fs = ([], vs, fs)"
| "move_ships ops (None # rest) vs fs =
     (case move_ships ops rest vs fs of (rest', vs', fs') \<Rightarrow> (None # rest', vs', fs'))"
| "move_ships ops (Some ship # rest) vs fs =
     (case ShipMove ops ship vs fs of
        (ship', vs1, fs1) \<Rightarrow>
          (case move_ships ops rest vs1 fs1 of
             (rest', vs2, fs2) \<Rightarrow> (Some ship' # rest', vs2, fs2)))"

definition Step :: "World_Ops \<Rightarrow> GameState \<Rightarrow> GameState" where
  "Step ops g =
     (let tick = worldTick g + 1
      in case move_ships ops (ships g) (visuals g) (flotsam g) of
           (ships1, visuals1, flotsam1) \<Rightarrow>
             (let projectiles1 = filter (\<lambda>p. \<not> IsDead ops p) (projectiles g);
                  visuals2 = map (VisualMove ops) visuals1
              in case asteroids g of
                   None \<Rightarrow>
                     \<lparr>currentSystem = currentSystem g, ships = ships1,
                      projectiles = projectiles1, flotsam = flotsam1, visuals = visuals2,
                      asteroids = None, worldTick = tick\<rparr>
                 | Some field \<Rightarrow>
                     (case AsteroidStep ops field visuals2 flotsam1 tick of
                        (field', visuals3, flotsam3) \<Rightarrow>
                          \<lparr>currentSystem = currentSystem g, ships = ships1,
                           projectiles = projectiles1, flotsam = flotsam3,
                           visuals = visuals3, asteroids = Some field',
                           worldTick = tick\<rparr>)))"


section \<open>Predictor (multiplayer/Predictor.cpp)\<close>




text \<open>The body of \<open>ApplyCommand\<close> is empty in the source: it leaves the state as it is.\<close>

definition ApplyCommand :: "GameState \<Rightarrow> ('u, 'c) PlayerCommand \<Rightarrow> GameState" where
  "ApplyCommand state c = state"


definition PredictNextState ::
  "World_Ops \<Rightarrow> GameState \<Rightarrow> ('u, 'c) PlayerCommand \<Rightarrow> GameState" where
  "PredictNextState ops currentState c =
     Step ops (ApplyCommand (copy_GameState currentState) c)"




subsection \<open>Concrete inputs\<close>




section \<open>SnapshotManager (server/SnapshotManager.cpp)\<close>

text \<open>
  The fields \<open>gameTick\<close> and \<open>timestamp\<close> of a snapshot are \<open>snapTick\<close> and
  \<open>snapTimestamp\<close>. The deque of snapshots is a list with the front at the head.
\<close>

record Snapshot =
  snapTick :: u64
  snapTimestamp :: u64
  state :: "GameState option"
  compressedSize :: nat
  isKeyframe :: bool

record SnapshotManager =
  snapshots :: "Snapshot list"
  historySize :: nat
  keyframeInterval :: u32
  snapshotsSinceLastKeyframe :: u32
  totalSnapshots :: u64
  totalKeyframes :: u64
  totalUncompressedBytes :: u64
  totalCompressedBytes :: u64

definition SnapshotManager0 :: "nat \<Rightarrow> SnapshotManager" where
  "SnapshotManager0 n =
     \<lparr>snapshots = [], historySize = n, keyframeInterval = 30,
      snapshotsSinceLastKeyframe = 0, totalSnapshots = 0, totalKeyframes = 0,
      totalUncompressedBytes = 0, totalCompressedBytes = 0\<rparr>"

definition SetKeyframeInterval :: "SnapshotManager \<Rightarrow> u32 \<Rightarrow> SnapshotManager" where
  "SetKeyframeInterval m interval = m\<lparr>keyframeInterval := interval\<rparr>"

definition ShouldCreateKeyframe :: "SnapshotManager \<Rightarrow> bool" where
  "ShouldCreateKeyframe m = (snapshotsSinceLastKeyframe m \<ge> keyframeInterval m)"

definition EstimateSnapshotSize :: "GameState \<Rightarrow> nat" where
  "EstimateSnapshotSize st =
     32 + length (ships st) * 128 + length (projectiles st) * 32
        + length (visuals st) * 24 + length (flotsam st) * 64 + 64"

definition CalculateDelta :: "GameState \<Rightarrow> GameState \<Rightarrow> nat" where
  "CalculateDelta previous current =
     (let shipCount = length (ships current);
          changedShips = shipCount * 30 div 100;
          deltaSize = 32 + changedShips * 48 + length (projectiles current) * 32
                         + length (visuals current) * 24
      in deltaSize * 3 div 10)"

text \<open>The snapshot that \<open>CreateSnapshot\<close> builds, with its keyframe flag and size.\<close>

definition new_snapshot :: "SnapshotManager \<Rightarrow> GameState \<Rightarrow> u64 \<Rightarrow> bool \<Rightarrow> u64 \<Rightarrow> Snapshot" where
  "new_snapshot m currentState tick forceKeyframe now =
     (let isKey = (forceKeyframe \<or> ShouldCreateKeyframe m);
          uncompressedSize = EstimateSnapshotSize currentState;
          compressed =
            (if \<not> isKey \<and> snapshots m \<noteq> []
             then (case state (last (snapshots m)) of
                     Some previousState \<Rightarrow> CalculateDelta previousState currentState
                   | None \<Rightarrow> uncompressedSize)
             else uncompressedSize)
      in \<lparr>snapTick = tick, snapTimestamp = now, state = Some (copy_GameState currentState),
          compressedSize = compressed, isKeyframe = isKey\<rparr>)"

text \<open>\<open>while(snapshots.size() > historySize) snapshots.pop_front();\<close>\<close>

function prune_history :: "nat \<Rightarrow> 'a list \<Rightarrow> 'a list" where
  "prune_history n xs = (if length xs > n then prune_history n (tl xs) else xs)"
  by pat_completeness auto
termination
  by (relation "measure (\<lambda>(n, xs). length xs)") auto

declare prune_history.simps [simp del]

definition CreateSnapshot ::
  "SnapshotManager \<Rightarrow> GameState \<Rightarrow> u64 \<Rightarrow> bool \<Rightarrow> u64 \<Rightarrow> SnapshotManager" where
  "CreateSnapshot m currentState tick forceKeyframe now =
     (let snapshot = new_snapshot m currentState tick forceKeyframe now;
          uncompressedSize = EstimateSnapshotSize currentState;
          m1 = m\<lparr>totalSnapshots := totalSnapshots m + 1\<rparr>;
          m2 = (if isKeyframe snapshot
                then m1\<lparr>totalKeyframes := totalKeyframes m1 + 1,
                        snapshotsSinceLastKeyframe := 0\<rparr>
                else m1\<lparr>snapshotsSinceLastKeyframe := snapshotsSinceLastKeyframe m1 + 1\<rparr>);
          m3 = m2\<lparr>totalUncompressedBytes := totalUncompressedBytes m2 + of_nat uncompressedSize,
                  totalCompressedBytes :=
                    totalCompressedBytes m2 + of_nat (compressedSize snapshot)\<rparr>
      in m3\<lparr>snapshots := prune_history (historySize m3) (snapshots m3 @ [snapshot])\<rparr>)"

text \<open>
  A sequence of \<open>CreateSnapshot\<close> calls without forced keyframes, each with the world, the
  tick and the clock reading it is given; then the snapshots in the order they were built.
\<close>

fun CreateAll :: "SnapshotManager \<Rightarrow> (GameState \<times> u64 \<times> u64) list \<Rightarrow> SnapshotManager" where
  "CreateAll m [] = m"
| "CreateAll m ((st, tick, now) # rest) = CreateAll (CreateSnapshot m st tick False now) rest"

fun created :: "SnapshotManager \<Rightarrow> (GameState \<times> u64 \<times> u64) list \<Rightarrow> Snapshot list" where
  "created m [] = []"
| "created m ((st, tick, now) # rest) =
     new_snapshot m st tick False now # created (CreateSnapshot m st tick False now) rest"

text \<open>The last \<open>n\<close> elements of a list (all of it when it is shorter).\<close>

definition keep_last :: "nat \<Rightarrow> 'a list \<Rightarrow> 'a list" where
  "keep_last n xs = drop (length xs - n) xs"

subsection \<open>Concrete inputs\<close>

text \<open>The keyframe test of the repository: interval 5, ten snapshots for the ticks 0 to 9.\<close>

definition ten_worlds :: "(GameState \<times> u64 \<times> u64) list" where
  "ten_worlds = map (\<lambda>i. (SetGameTick GameState0 i, i, 7000 + i)) [0, 1, 2, 3, 4, 5, 6, 7, 8, 9]"

definition interval5 :: SnapshotManager where
  "interval5 = SetKeyframeInterval (SnapshotManager0 100) 5"

section \<open>ProjectileSync (multiplayer/ProjectileSync.cpp)\<close>























subsection \<open>Concrete inputs\<close>



section \<open>EntityInterpolator (client/EntityInterpolator.cpp)\<close>

text \<open>
  The field \<open>gameTick\<close> of an entity state is \<open>stateTick\<close>, and the deque \<open>snapshots\<close> of
  a history is \<open>timeline\<close>, with the front at the head. Of \<open>Angle\<close> the functions use the
  constructor from degrees and \<open>Degrees()\<close>; both are parameters. The wall clock that
  \<open>GetRenderTimestamp\<close> reads is the argument \<open>now\<close>, in milliseconds.
\<close>

record 'ang EntityState =
  stateTick :: u64
  position :: Point
  velocity :: Point
  facing :: 'ang
  timestamp :: u64

record 'ang EntityHistory =
  timeline :: "'ang EntityState list"
  lastInterpolated :: "'ang EntityState"

record ('u, 'ang) EntityInterpolator =
  entityStates :: "'u \<rightharpoonup> 'ang EntityHistory"
  interpolationDelayMs :: u32
  maxSnapshotHistory :: nat

text \<open>
  A default-constructed \<open>EntityState\<close>, given the default-constructed angle, and the new
  interpolator.
\<close>

definition EntityState0 :: "'ang \<Rightarrow> 'ang EntityState" where
  "EntityState0 angle0 =
     \<lparr>stateTick = 0, position = Point0, velocity = Point0, facing = angle0, timestamp = 0\<rparr>"

definition EntityInterpolator0 :: "('u, 'ang) EntityInterpolator" where
  "EntityInterpolator0 =
     \<lparr>entityStates = Map.empty, interpolationDelayMs = 100, maxSnapshotHistory = 5\<rparr>"

definition AddSnapshot ::
  "'ang \<Rightarrow> ('u, 'ang) EntityInterpolator \<Rightarrow> 'u \<Rightarrow> 'ang EntityState
     \<Rightarrow> ('u, 'ang) EntityInterpolator" where
  "AddSnapshot angle0 ip entityId st =
     (let h = (case entityStates ip entityId of
                 None \<Rightarrow> \<lparr>timeline = [], lastInterpolated = EntityState0 angle0\<rparr>
               | Some h \<Rightarrow> h);
          h1 = h\<lparr>timeline := timeline h @ [st]\<rparr>;
          h2 = h1\<lparr>timeline := prune_history (maxSnapshotHistory ip) (timeline h1)\<rparr>
      in ip\<lparr>entityStates := (entityStates ip)(entityId \<mapsto> h2)\<rparr>)"

definition GetRenderTimestamp :: "('u, 'ang) EntityInterpolator \<Rightarrow> u64 \<Rightarrow> u64" where
  "GetRenderTimestamp ip now = now - ucast (interpolationDelayMs ip)"

text \<open>The search for the first adjacent pair that brackets the render time.\<close>

fun find_bracket :: "u64 \<Rightarrow> 'ang EntityState list \<Rightarrow> ('ang EntityState \<times> 'ang EntityState) option" where
  "find_bracket renderTime (a # b # rest) =
     (if timestamp a \<le> renderTime \<and> timestamp b \<ge> renderTime then Some (a, b)
      else find_bracket renderTime (b # rest))"
| "find_bracket renderTime [a] = None"
| "find_bracket renderTime [] = None"

text \<open>The wraparound of an angular difference in degrees.\<close>

definition wrap_diff :: "real \<Rightarrow> real" where
  "wrap_diff diff = (if diff > 180 then diff - 360 else if diff < - 180 then diff + 360 else diff)"

text \<open>\<open>static_cast<uint64_t>\<close> of a product of an unsigned integer and a double.\<close>

definition scaled :: "u64 \<Rightarrow> real \<Rightarrow> u64" where
  "scaled n alpha = of_nat (nat \<lfloor>real (unat n) * alpha\<rfloor>)"

definition Interpolate ::
  "('ang \<Rightarrow> real) \<Rightarrow> (real \<Rightarrow> 'ang) \<Rightarrow> 'ang EntityState \<Rightarrow> 'ang EntityState \<Rightarrow> real
     \<Rightarrow> 'ang EntityState" where
  "Interpolate Degrees Angle from to alpha =
     (let fromDegrees = Degrees (facing from);
          toDegrees = Degrees (facing to);
          diff = wrap_diff (toDegrees - fromDegrees);
          interpolatedDegrees = fromDegrees + diff * alpha
      in \<lparr>stateTick = stateTick from + scaled (stateTick to - stateTick from) alpha,
          position = point_add (position from)
                       (point_scale (point_sub (position to) (position from)) alpha),
          velocity = point_add (velocity from)
                       (point_scale (point_sub (velocity to) (velocity from)) alpha),
          facing = Angle interpolatedDegrees,
          timestamp = timestamp from + scaled (timestamp to - timestamp from) alpha\<rparr>)"

text \<open>
  The pointer returned is the state it points to, \<open>None\<close> for the null pointer; the
  interpolator is returned too, since the function caches the blended state in the history.
\<close>

definition GetInterpolatedState ::
  "('ang \<Rightarrow> real) \<Rightarrow> (real \<Rightarrow> 'ang) \<Rightarrow> ('u, 'ang) EntityInterpolator \<Rightarrow> 'u \<Rightarrow> u64
     \<Rightarrow> 'ang EntityState option \<times> ('u, 'ang) EntityInterpolator" where
  "GetInterpolatedState Degrees Angle ip entityId now =
     (case entityStates ip entityId of
        None \<Rightarrow> (None, ip)
      | Some h \<Rightarrow>
          if length (timeline h) < 2
          then (if timeline h = [] then None else Some (last (timeline h)), ip)
          else
            (let renderTime = GetRenderTimestamp ip now
             in case find_bracket renderTime (timeline h) of
                  None \<Rightarrow> (Some (last (timeline h)), ip)
                | Some (before, after) \<Rightarrow>
                    (let timeDiff = timestamp after - timestamp before
                     in if timeDiff = 0 then (Some after, ip)
                        else
                          (let alpha = real (unat (renderTime - timestamp before))
                                         / real (unat timeDiff);
                               alpha1 = max 0 (min 1 alpha);
                               blended = Interpolate Degrees Angle before after alpha1
                           in (Some blended,
                               ip\<lparr>entityStates := (entityStates ip)(entityId \<mapsto>
                                     h\<lparr>lastInterpolated := blended\<rparr>)\<rparr>)))))"

text \<open>The two loops of \<open>PruneOldSnapshots\<close> on one timeline.\<close>

fun prune_too_old :: "u64 \<Rightarrow> 'ang EntityState list \<Rightarrow> 'ang EntityState list" where
  "prune_too_old pruneThreshold [] = []"
| "prune_too_old pruneThreshold (e # es) =
     (if timestamp e < pruneThreshold then prune_too_old pruneThreshold es else e # es)"

fun prune_to_two :: "u64 \<Rightarrow> 'ang EntityState list \<Rightarrow> 'ang EntityState list" where
  "prune_to_two renderTime [] = []"
| "prune_to_two renderTime (e # es) =
     (if length (e # es) > 2 \<and> timestamp e < renderTime
      then (if length (e # es) > 2 then prune_to_two renderTime es else e # es)
      else e # es)"

definition PruneOldSnapshots ::
  "('u, 'ang) EntityInterpolator \<Rightarrow> u64 \<Rightarrow> ('u, 'ang) EntityInterpolator" where
  "PruneOldSnapshots ip now =
     (let renderTime = GetRenderTimestamp ip now;
          pruneThreshold = renderTime - 1000
      in ip\<lparr>entityStates := (\<lambda>uuid.
            map_option
              (\<lambda>h. h\<lparr>timeline :=
                       prune_to_two renderTime (prune_too_old pruneThreshold (timeline h))\<rparr>)
              (entityStates ip uuid))\<rparr>)"

definition Update :: "('u, 'ang) EntityInterpolator \<Rightarrow> u64 \<Rightarrow> ('u, 'ang) EntityInterpolator" where
  "Update ip now = PruneOldSnapshots ip now"

text \<open>The timeline of an entity, empty when the entity is not tracked.\<close>

definition timeline_of :: "('u, 'ang) EntityInterpolator \<Rightarrow> 'u \<Rightarrow> 'ang EntityState list" where
  "timeline_of ip entityId =
     (case entityStates ip entityId of None \<Rightarrow> [] | Some h \<Rightarrow> timeline h)"

text \<open>The adjacent pair at index \<open>i\<close> of a timeline brackets the render time.\<close>

definition brackets :: "u64 \<Rightarrow> 'ang EntityState list \<Rightarrow> nat \<Rightarrow> bool" where
  "brackets renderTime states i =
     (Suc i < length states \<and> timestamp (states ! i) \<le> renderTime
      \<and> renderTime \<le> timestamp (states ! Suc i))"

subsection \<open>Concrete inputs\<close>

definition state_at :: "u64 \<Rightarrow> real \<Rightarrow> real EntityState" where
  "state_at ts x =
     \<lparr>stateTick = 0, position = \<lparr>X = x, Y = 0\<rparr>, velocity = Point0, facing = 0,
      timestamp = ts\<rparr>"

definition tracking :: "real EntityState list \<Rightarrow> (string, real) EntityInterpolator" where
  "tracking states =
     EntityInterpolator0\<lparr>entityStates :=
       [''e1'' \<mapsto> \<lparr>timeline = states, lastInterpolated = EntityState0 0\<rparr>]\<rparr>"

definition same_ms :: "real EntityState list" where
  "same_ms = [state_at 1000 0, state_at 1100 10, state_at 1100 20, state_at 1200 30]"

section \<open>ClientReconciliation (client/ClientReconciliation.cpp)\<close>

record ClientReconciliation =
  positionError :: Point
  positionCorrectionProgress :: real
  velocityError :: Point
  velocityCorrectionProgress :: real
  facingErrorDegrees :: real
  facingCorrectionProgress :: real
  correctionTimeSeconds :: real
  errorThresholdPx :: real
  snapThresholdPx :: real
  totalReconciliations :: u64
  totalSnaps :: u64
  averageError :: real

definition ClientReconciliation0 :: ClientReconciliation where
  "ClientReconciliation0 =
     \<lparr>positionError = Point0, positionCorrectionProgress = 1,
      velocityError = Point0, velocityCorrectionProgress = 1,
      facingErrorDegrees = 0, facingCorrectionProgress = 1,
      correctionTimeSeconds = 15 / 100, errorThresholdPx = 1, snapThresholdPx = 500,
      totalReconciliations = 0, totalSnaps = 0, averageError = 0\<rparr>"

definition IsSignificantError :: "ClientReconciliation \<Rightarrow> real \<Rightarrow> bool" where
  "IsSignificantError r errorMagnitude = (errorMagnitude \<ge> errorThresholdPx r)"

definition ReconcilePosition :: "ClientReconciliation \<Rightarrow> Point \<Rightarrow> Point \<Rightarrow> ClientReconciliation" where
  "ReconcilePosition r predictedPos serverPos =
     (let r1 = r\<lparr>positionError := point_sub serverPos predictedPos\<rparr>;
          errorMagnitude = Length (positionError r1);
          alpha = 1 / 10;
          r2 = r1\<lparr>averageError := alpha * errorMagnitude + (1 - alpha) * averageError r1\<rparr>
      in if \<not> IsSignificantError r2 errorMagnitude
         then r2\<lparr>positionError := Point0, positionCorrectionProgress := 1\<rparr>
         else if errorMagnitude > snapThresholdPx r2
         then r2\<lparr>positionError := Point0, positionCorrectionProgress := 1,
                 totalSnaps := totalSnaps r2 + 1\<rparr>
         else r2\<lparr>positionCorrectionProgress := 0,
                 totalReconciliations := totalReconciliations r2 + 1\<rparr>)"

definition IsReconcilingPosition :: "ClientReconciliation \<Rightarrow> bool" where
  "IsReconcilingPosition r = (positionCorrectionProgress r < 1)"

definition GetCorrectionStepPerFrame :: "ClientReconciliation \<Rightarrow> real" where
  "GetCorrectionStepPerFrame r =
     (let framesForCorrection = correctionTimeSeconds r * 60;
          frames = (if framesForCorrection < 1 then 1 else framesForCorrection)
      in 1 / frames)"

subsection \<open>Concrete inputs\<close>

definition at_xy :: "real \<Rightarrow> real \<Rightarrow> Point" where
  "at_xy x y = \<lparr>X = x, Y = y\<rparr>"

section \<open>Properties of the command validator\<close>

lemmas validator_defs = ValidateCommand_def IsValid_def Let_def CommandValidator0_def reject_def
  CheckRateLimit_def rate_entry_def RateLimitData0_def RATE_LIMIT_WINDOW_MS_def

subsection \<open>The tick window\<close>

lemma ValidateCommand_TOO_OLD_iff:
  "fst (ValidateCommand ToString v c currentTick now) = TOO_OLD \<longleftrightarrow>
     IsValid ToString c \<and> gameTick c < currentTick - maxPastTicks v"
  by (simp add: ValidateCommand_def IsValid_def Let_def split: prod.split)

lemma ValidateCommand_TOO_FUTURE_iff:
  "fst (ValidateCommand ToString v c currentTick now) = TOO_FUTURE \<longleftrightarrow>
     IsValid ToString c \<and> \<not> gameTick c < currentTick - maxPastTicks v \<and>
     gameTick c > currentTick + maxFutureTicks v"
  by (simp add: ValidateCommand_def IsValid_def Let_def split: prod.split)

text \<open>
  Where the subtraction does not wrap, that is from tick \<open>maxPastTicks\<close> on, the comparison
  is the one on the integers.
\<close>

lemma too_old_without_wrap:
  "maxPastTicks v \<le> currentTick \<Longrightarrow>
     (gameTick c < currentTick - maxPastTicks v) \<longleftrightarrow>
     (unat (gameTick c) + unat (maxPastTicks v) < unat currentTick)"
  by (simp add: word_less_nat_alt unat_sub word_le_nat_alt) linarith

lemma tick_window_at_1000:
  "fst (ValidateCommand (\<lambda>s. s) CommandValidator0 (cmd_at ''p1'' 939 0) 1000 5000) = TOO_OLD"
  "fst (ValidateCommand (\<lambda>s. s) CommandValidator0 (cmd_at ''p1'' 1061 0) 1000 5000) = TOO_FUTURE"
  "fst (ValidateCommand (\<lambda>s. s) CommandValidator0 (cmd_at ''p1'' 940 0) 1000 5000) = VALID"
  "fst (ValidateCommand (\<lambda>s. s) CommandValidator0 (cmd_at ''p1'' 1060 0) 1000 5000) = VALID"
  by (simp_all add: cmd_at_def validator_defs)

text \<open>
  C1. The claim: the verdict is \<open>TOO_OLD\<close> exactly when the command's tick is below
  \<open>currentTick - maxPastTicks\<close>, for every current tick, also one below \<open>maxPastTicks\<close>.
  The code subtracts in \<open>uint64_t\<close>: at current tick 10 with the default margin 60 the
  bound wraps to \<open>2^64 - 50\<close>, and a well-formed command for tick 10 itself is classified
  \<open>TOO_OLD\<close>, although 10 is not below \<open>10 - 60\<close>.
\<close>

theorem ValidateCommand_TOO_OLD_before_tick_60:
  "fst (ValidateCommand (\<lambda>s. s) CommandValidator0 (cmd_at ''p1'' 10 0) 10 5000) = TOO_OLD
   \<and> \<not> (int (unat (gameTick (cmd_at ''p1'' 10 0)))
          < int (unat (10 :: u64))
            - int (unat (maxPastTicks (CommandValidator0 :: string CommandValidator))))"
  by (simp add: cmd_at_def validator_defs)

subsection \<open>The verdict \<open>INVALID_PLAYER\<close>\<close>

text \<open>
  C10. \<open>ValidateCommand\<close> never returns \<open>INVALID_PLAYER\<close>: a command whose identifier has
  an empty string form already fails \<open>IsValid\<close> and is \<open>MALFORMED\<close>, so the branch that
  tests the empty string again is never taken.
\<close>

theorem ValidateCommand_never_INVALID_PLAYER:
  "fst (ValidateCommand ToString v c currentTick now) \<noteq> INVALID_PLAYER"
  by (simp add: ValidateCommand_def IsValid_def Let_def split: prod.split)

subsection \<open>The rate limiter\<close>

lemma rate_entry_stats [simp]:
  "rate_entry (v\<lparr>totalCommands := a\<rparr>) p = rate_entry v p"
  "rate_entry (v\<lparr>rejectedCommands := b\<rparr>) p = rate_entry v p"
  by (simp_all add: rate_entry_def)

lemma rate_entry_upd [simp]:
  "rate_entry (v\<lparr>playerRateLimits := (playerRateLimits v)(q \<mapsto> d)\<rparr>) p =
     (if p = q then d else rate_entry v p)"
  by (simp add: rate_entry_def)

text \<open>The implied rate \<open>counter * 1000 / windowMs\<close> is the counter itself.\<close>

lemma commandsPerSecond_gt:
  "(real (unat (n::u32)) * 1000 / real (unat RATE_LIMIT_WINDOW_MS) > real (unat (m::u32)))
     = (unat m < unat n)"
  by (simp add: RATE_LIMIT_WINDOW_MS_def del: of_nat_unat)

lemma CheckRateLimit_in_window:
  assumes "t - windowStartTime (rate_entry v p) < 1000"
  shows "fst (CheckRateLimit v p t) =
           (unat (commandsInWindow (rate_entry v p) + 1) \<le> unat (maxCommandsPerSecond v))"
    and "rate_entry (snd (CheckRateLimit v p t)) p =
           (rate_entry v p)\<lparr>commandsInWindow := commandsInWindow (rate_entry v p) + 1,
                             lastCommandTime := t\<rparr>"
    and "maxCommandsPerSecond (snd (CheckRateLimit v p t)) = maxCommandsPerSecond v"
proof -
  from assms have nw: "\<not> RATE_LIMIT_WINDOW_MS \<le> t - windowStartTime (rate_entry v p)"
    by (simp add: RATE_LIMIT_WINDOW_MS_def)
  show "fst (CheckRateLimit v p t) =
           (unat (commandsInWindow (rate_entry v p) + 1) \<le> unat (maxCommandsPerSecond v))"
    using nw by (auto simp add: CheckRateLimit_def Let_def commandsPerSecond_gt simp del: of_nat_unat)
  show "rate_entry (snd (CheckRateLimit v p t)) p =
           (rate_entry v p)\<lparr>commandsInWindow := commandsInWindow (rate_entry v p) + 1,
                             lastCommandTime := t\<rparr>"
    using nw by (simp add: CheckRateLimit_def Let_def)
  show "maxCommandsPerSecond (snd (CheckRateLimit v p t)) = maxCommandsPerSecond v"
    by (simp add: CheckRateLimit_def Let_def)
qed

text \<open>A call for another player leaves the entry of \<open>p\<close> alone.\<close>

lemma ValidateCommand_other:
  assumes "ValidateCommand ToString v c k t = (r, v')" "playerUUID c \<noteq> p"
  shows "rate_entry v' p = rate_entry v p \<and> maxCommandsPerSecond v' = maxCommandsPerSecond v"
  using assms
  by (auto simp: ValidateCommand_def Let_def reject_def CheckRateLimit_def rate_entry_def
        split: if_splits prod.splits)

text \<open>
  A call for \<open>p\<close> inside the open window: the window stays, the counter grows by at most
  one, and the verdict is \<open>VALID\<close> only if the grown counter is within the limit.
\<close>

lemma ValidateCommand_same:
  assumes "ValidateCommand ToString v c k t = (r, v')" "playerUUID c = p"
      "t - windowStartTime (rate_entry v p) < 1000"
      "unat (commandsInWindow (rate_entry v p)) + 1 < 2 ^ 32"
  shows "maxCommandsPerSecond v' = maxCommandsPerSecond v \<and>
         windowStartTime (rate_entry v' p) = windowStartTime (rate_entry v p) \<and>
         (if r = VALID
          then unat (commandsInWindow (rate_entry v' p)) = unat (commandsInWindow (rate_entry v p)) + 1
             \<and> unat (commandsInWindow (rate_entry v p)) + 1 \<le> unat (maxCommandsPerSecond v)
          else unat (commandsInWindow (rate_entry v' p)) \<ge> unat (commandsInWindow (rate_entry v p))
             \<and> unat (commandsInWindow (rate_entry v' p)) \<le> unat (commandsInWindow (rate_entry v p)) + 1)"
proof -
  let ?v1 = "v\<lparr>totalCommands := totalCommands v + 1\<rparr>"
  have u: "unat (commandsInWindow (rate_entry v p) + 1) = unat (commandsInWindow (rate_entry v p)) + 1"
    using assms(4) by (simp add: unat_word_ariths)
  have w: "t - windowStartTime (rate_entry ?v1 p) < 1000"
    using assms(3) by simp
  note crl = CheckRateLimit_in_window [OF w]
  show ?thesis
  proof (cases "r = VALID \<or> r = RATE_LIMITED")
    case False
    with assms(1) have "v' = reject ?v1"
      by (auto simp: ValidateCommand_def Let_def split: if_splits prod.splits)
    with False show ?thesis by (simp add: reject_def)
  next
    case True
    with assms(1,2) have v': "v' = (if r = VALID then snd (CheckRateLimit ?v1 p t)
                                     else reject (snd (CheckRateLimit ?v1 p t)))"
      and ok: "fst (CheckRateLimit ?v1 p t) = (r = VALID)"
      by (auto simp: ValidateCommand_def Let_def split: if_splits prod.splits)
    show ?thesis
      using v' ok crl u by (auto simp: reject_def)
  qed
qed

lemma valid_count_Cons:
  "valid_count p ((c, k, t) # calls) (r # rs) =
     (if playerUUID c = p \<and> r = VALID then 1 else 0) + valid_count p calls rs"
  by (simp add: valid_count_def)

lemma burst_results: "fst (ValidateAll (\<lambda>s. s) limit2 burst) = [VALID, VALID, VALID, VALID]"
  by (simp add: burst_def limit2_def cmd_at_def validator_defs)

lemma after_open_entry:
  "rate_entry after_open ''p1'' =
     \<lparr>lastCommandTime = 5000, commandsInWindow = 1, windowStartTime = 5000\<rparr>"
  "maxCommandsPerSecond after_open = 2"
  by (simp_all add: after_open_def limit2_def cmd_at_def validator_defs)

lemma in_window_results:
  "fst (ValidateAll (\<lambda>s. s) after_open in_window_calls) =
     [VALID, RATE_LIMITED, VALID, RATE_LIMITED]"
  by (simp add: after_open_def in_window_calls_def limit2_def cmd_at_def validator_defs)

text \<open>
  C8, as stated: in any one-second span a player gets at most \<open>maxCommandsPerSecond\<close>
  verdicts \<open>VALID\<close>. The window of the code tumbles: with a limit of 2, calls at the
  clock readings 1000, 1999, 2000 and 2001 ms are all \<open>VALID\<close> (the window that opened at
  1000 is replaced at 2000), so the span that starts at 1999 holds three.
\<close>

theorem rate_limit_sliding_span_counterexample:
  "valid_in_span ''p1'' 1999 burst (fst (ValidateAll (\<lambda>s. s) limit2 burst)) = 3
   \<and> unat (maxCommandsPerSecond limit2) = 2"
  by (simp add: burst_results valid_in_span_def)
     (simp add: burst_def limit2_def cmd_at_def CommandValidator0_def)

text \<open>
  C8, amended: within one tumbling window of a player, that is over any sequence of calls
  none of which, for that player, comes 1000 ms or more after the start of the window that
  is open, the number of \<open>VALID\<close> verdicts for the player is at most
  \<open>maxCommandsPerSecond\<close> less the window's counter at the start of the sequence (as long
  as the 32-bit counter does not wrap). In particular once the counter has reached the
  limit no further command of the player is \<open>VALID\<close> in that window.
\<close>

theorem rate_limit_tumbling_window:
  assumes "\<forall>(c, k, t) \<in> set calls.
             playerUUID c = p \<longrightarrow> t - windowStartTime (rate_entry v p) < 1000"
      and "unat (commandsInWindow (rate_entry v p)) + length calls < 2 ^ 32"
  shows "valid_count p calls (fst (ValidateAll ToString v calls))
           \<le> unat (maxCommandsPerSecond v) - unat (commandsInWindow (rate_entry v p))"
  using assms
proof (induction calls arbitrary: v)
  case Nil
  show ?case by (simp add: valid_count_def)
next
  case (Cons call calls)
  obtain c k t where call: "call = (c, k, t)" by (cases call)
  obtain r v' where step: "ValidateCommand ToString v c k t = (r, v')"
    by (cases "ValidateCommand ToString v c k t")
  obtain rs v'' where rest: "ValidateAll ToString v' calls = (rs, v'')"
    by (cases "ValidateAll ToString v' calls")
  have cnt: "valid_count p (call # calls) (fst (ValidateAll ToString v (call # calls))) =
               (if playerUUID c = p \<and> r = VALID then 1 else 0) + valid_count p calls rs"
    by (simp add: call step rest valid_count_Cons)
  show ?case
  proof (cases "playerUUID c = p")
    case False
    from ValidateCommand_other [OF step False]
    have same: "rate_entry v' p = rate_entry v p"
      "maxCommandsPerSecond v' = maxCommandsPerSecond v" by simp_all
    have "valid_count p calls (fst (ValidateAll ToString v' calls))
            \<le> unat (maxCommandsPerSecond v') - unat (commandsInWindow (rate_entry v' p))"
      using Cons.prems by (intro Cons.IH) (auto simp: same)
    then show ?thesis using False by (simp add: cnt rest same)
  next
    case True
    have inw: "t - windowStartTime (rate_entry v p) < 1000"
      using Cons.prems(1) True by (simp add: call)
    have nowrap: "unat (commandsInWindow (rate_entry v p)) + 1 < 2 ^ 32"
      using Cons.prems(2) by simp
    note st = ValidateCommand_same [OF step True inw nowrap]
    have "valid_count p calls (fst (ValidateAll ToString v' calls))
            \<le> unat (maxCommandsPerSecond v') - unat (commandsInWindow (rate_entry v' p))"
    proof (intro Cons.IH)
      show "\<forall>(c, k, t) \<in> set calls.
              playerUUID c = p \<longrightarrow> t - windowStartTime (rate_entry v' p) < 1000"
        using Cons.prems(1) st by auto
      show "unat (commandsInWindow (rate_entry v' p)) + length calls < 2 ^ 32"
        using Cons.prems(2) st by (auto split: if_splits)
    qed
    then show ?thesis
      using st True by (auto simp: cnt rest split: if_splits)
  qed
qed

theorem rate_limit_tumbling_window_witness:
  "valid_count ''p1'' in_window_calls (fst (ValidateAll (\<lambda>s. s) after_open in_window_calls))
     \<le> unat (maxCommandsPerSecond after_open)
        - unat (commandsInWindow (rate_entry after_open ''p1''))
   \<and> valid_count ''p1'' in_window_calls (fst (ValidateAll (\<lambda>s. s) after_open in_window_calls)) = 1"
proof -
  have h1: "\<forall>(c, k, t) \<in> set in_window_calls.
      playerUUID c = ''p1'' \<longrightarrow> t - windowStartTime (rate_entry after_open ''p1'') < 1000"
    by (simp add: after_open_entry) (simp add: in_window_calls_def cmd_at_def)
  have h2: "unat (commandsInWindow (rate_entry after_open ''p1'')) + length in_window_calls
              < 2 ^ 32"
    by (simp add: after_open_entry in_window_calls_def)
  have c: "valid_count ''p1'' in_window_calls
             (fst (ValidateAll (\<lambda>s. s) after_open in_window_calls)) = 1"
    by (simp add: in_window_results) (simp add: in_window_calls_def valid_count_def cmd_at_def)
  show ?thesis
    using rate_limit_tumbling_window [OF h1 h2, of "\<lambda>s. s"] c by blast
qed

section \<open>Properties of the command buffer\<close>

lemma set_emplace: "set (multimap_emplace k v q) = insert (k, v) (set q)"
  by (induction q) (auto split: if_splits)

lemma sorted_emplace:
  "sorted (map fst q) \<Longrightarrow> sorted (map fst (multimap_emplace k v q))"
proof (induction q)
  case Nil
  show ?case by simp
next
  case (Cons a q)
  have ge: "\<forall>x \<in> set q. fst a \<le> fst x" and sq: "sorted (map fst q)"
    using Cons.prems by simp_all
  show ?case
  proof (cases "k < fst a")
    case True
    then have "\<forall>x \<in> set (a # q). k \<le> fst x" using ge by fastforce
    then show ?thesis using True Cons.prems by (cases a) simp
  next
    case False
    then have "\<forall>x \<in> set (multimap_emplace k v q). fst a \<le> fst x"
      using ge by (auto simp: set_emplace)
    then show ?thesis using False Cons.IH [OF sq] by (cases a) simp
  qed
qed

lemma filter_emplace:
  "sorted (map fst q) \<Longrightarrow>
     filter (\<lambda>e. fst e = t) (multimap_emplace k v q) =
     filter (\<lambda>e. fst e = t) q @ (if k = t then [(k, v)] else [])"
proof (induction q)
  case Nil
  show ?case by simp
next
  case (Cons a q)
  have ge: "\<forall>x \<in> set q. fst a \<le> fst x" and sq: "sorted (map fst q)"
    using Cons.prems by simp_all
  show ?case
  proof (cases "k < fst a")
    case True
    then have "\<forall>x \<in> set (a # q). fst x \<noteq> k" using ge by fastforce
    then have "filter (\<lambda>e. fst e = k) (a # q) = []"
      by (auto simp: filter_empty_conv)
    then show ?thesis using True by (cases a) (auto split: if_splits)
  next
    case False
    then show ?thesis using Cons.IH [OF sq] by (cases a) simp
  qed
qed

lemma equal_range_filter:
  "sorted (map fst q) \<Longrightarrow> equal_range t q = filter (\<lambda>e. fst e = t) q"
proof (induction q)
  case Nil
  show ?case by (simp add: equal_range_def)
next
  case (Cons a q)
  have ge: "\<forall>x \<in> set q. fst a \<le> fst x" and sq: "sorted (map fst q)"
    using Cons.prems by simp_all
  note IH = Cons.IH [OF sq]
  consider "fst a < t" | "fst a = t" | "t < fst a" by (metis linorder_less_linear)
  then show ?case
  proof cases
    case 1
    then show ?thesis using IH by (simp add: equal_range_def)
  next
    case 2
    have "dropWhile (\<lambda>e. fst e < t) q = q" using ge 2 by (intro dropWhile_id) auto
    then show ?thesis using IH 2 by (simp add: equal_range_def)
  next
    case 3
    then have "\<forall>x \<in> set q. fst x \<noteq> t" using ge by fastforce
    then have "filter (\<lambda>e. fst e = t) q = []"
      by (auto simp: filter_empty_conv)
    moreover have "\<not> fst a < t" "fst a \<noteq> t" using 3 by auto
    ultimately show ?thesis using 3 by (simp add: equal_range_def)
  qed
qed

lemma AddCommand_queue:
  "commandQueue (snd (AddCommand ToString b c)) =
     (if fst (AddCommand ToString b c) then multimap_emplace (gameTick c) c (commandQueue b)
      else commandQueue b)"
  by (simp add: AddCommand_def)

lemma AddAll_filter:
  "sorted (map fst (commandQueue b)) \<Longrightarrow>
     sorted (map fst (commandQueue (snd (AddAll ToString b cs)))) \<and>
     map snd (filter (\<lambda>e. fst e = t) (commandQueue (snd (AddAll ToString b cs)))) =
     map snd (filter (\<lambda>e. fst e = t) (commandQueue b)) @
     filter (\<lambda>c. gameTick c = t) (accepted cs (fst (AddAll ToString b cs)))"
proof (induction cs arbitrary: b)
  case Nil
  then show ?case by (simp add: accepted_def)
next
  case (Cons c cs)
  obtain ok b' where step: "AddCommand ToString b c = (ok, b')"
    by (cases "AddCommand ToString b c")
  obtain oks b'' where rest: "AddAll ToString b' cs = (oks, b'')"
    by (cases "AddAll ToString b' cs")
  have q': "commandQueue b' =
      (if ok then multimap_emplace (gameTick c) c (commandQueue b) else commandQueue b)"
    using AddCommand_queue [of ToString b c] by (simp add: step)
  have s': "sorted (map fst (commandQueue b'))"
    using Cons.prems by (simp add: q' sorted_emplace)
  have f': "map snd (filter (\<lambda>e. fst e = t) (commandQueue b')) =
      map snd (filter (\<lambda>e. fst e = t) (commandQueue b)) @ (if ok \<and> gameTick c = t then [c] else [])"
    using Cons.prems by (simp add: q' filter_emplace)
  from Cons.IH [OF s'] show ?case
    by (simp add: step rest f' accepted_def)
qed

text \<open>
  What the buffer returns: after any sequence of \<open>AddCommand\<close> calls on a new buffer (with
  any cap), \<open>GetCommandsForTick t\<close> holds exactly the accepted commands whose tick is \<open>t\<close>,
  and it holds them in the order in which they were inserted.
\<close>

lemma GetCommandsForTick_accepted_as_inserted:
  "GetCommandsForTick (snd (AddAll ToString (SetMaxBufferSize CommandBuffer0 n) cs)) t =
     filter (\<lambda>c. gameTick c = t)
       (accepted cs (fst (AddAll ToString (SetMaxBufferSize CommandBuffer0 n) cs)))"
proof -
  let ?b = "SetMaxBufferSize CommandBuffer0 n :: ('a, 'b) CommandBuffer"
  have s: "sorted (map fst (commandQueue ?b))"
    by (simp add: SetMaxBufferSize_def CommandBuffer0_def)
  have e: "commandQueue ?b = []" by (simp add: SetMaxBufferSize_def CommandBuffer0_def)
  from AddAll_filter [OF s, of ToString cs t] show ?thesis
    by (simp add: GetCommandsForTick_def equal_range_filter e)
qed

lemmas buffer_defs = AddCommand_def IsValid_def IsDuplicate_def CommandBuffer0_def
  GetCommandsForTick_def equal_range_def cmd_eq_def

text \<open>
  C3. The claim: \<open>GetCommandsForTick t\<close> returns the accepted commands of tick \<open>t\<close> in
  ascending sequence number, whatever the order of insertion. \<open>PlayerCommand\<close> documents
  that order (the sequence number is "for detecting duplicates and ordering", and
  \<open>operator<\<close> by tick and sequence is "for ordering in buffer"), but the buffer keys its
  multimap by the tick alone and never uses it: two commands for tick 5 inserted with the
  sequence numbers 2 and then 1 are both accepted and come back as 2, 1, which the
  order of \<open>cmd_less\<close> puts the other way round.
\<close>

theorem GetCommandsForTick_not_in_sequence_order:
  "fst (AddAll (\<lambda>s. s) CommandBuffer0 two_out_of_order) = [True, True]
   \<and> map sequenceNumber
       (GetCommandsForTick (snd (AddAll (\<lambda>s. s) CommandBuffer0 two_out_of_order)) 5) = [2, 1]
   \<and> \<not> sorted [2, 1 :: u32]
   \<and> cmd_less (cmd_at ''p1'' 5 1) (cmd_at ''p1'' 5 2)"
  by (simp add: two_out_of_order_def cmd_at_def buffer_defs word_le_nat_alt cmd_less_def)

section \<open>Properties of the predictor\<close>








section \<open>Properties of the snapshot manager\<close>

lemma prune_history_drop: "prune_history n xs = drop (length xs - n) xs"
proof (induction n xs rule: prune_history.induct)
  case (1 n xs)
  show ?case
  proof (cases "length xs > n")
    case True
    then obtain y ys where xs: "xs = y # ys" by (cases xs) auto
    have "prune_history n xs = prune_history n ys"
      using True by (subst prune_history.simps) (simp add: xs)
    also have "\<dots> = drop (length ys - n) ys" using "1.IH" True by (simp add: xs)
    also have "\<dots> = drop (length xs - n) xs" using True by (simp add: xs Suc_diff_le)
    finally show ?thesis .
  next
    case False
    then show ?thesis by (subst prune_history.simps) simp
  qed
qed

lemma length_keep_last [simp]: "length (keep_last n xs) = min n (length xs)"
  by (simp add: keep_last_def)

lemma keep_last_short: "length xs \<le> n \<Longrightarrow> keep_last n xs = xs"
  by (simp add: keep_last_def)

lemma keep_last_append: "keep_last n (keep_last n xs @ ys) = keep_last n (xs @ ys)"
proof (cases "length xs \<le> n")
  case True
  then show ?thesis by (simp add: keep_last_short)
next
  case False
  define d where "d = length xs - n"
  have d: "d \<le> length xs" "length xs - d = n" "length xs + length ys - n = d + length ys"
    using False by (simp_all add: d_def)
  have "keep_last n (keep_last n xs @ ys) = drop (length ys) (drop d xs @ ys)"
    using d by (simp add: keep_last_def d_def [symmetric])
  also have "drop d xs @ ys = drop d (xs @ ys)" using d by simp
  also have "drop (length ys) (drop d (xs @ ys)) = keep_last n (xs @ ys)"
    unfolding keep_last_def drop_drop using d by (simp add: add.commute)
  finally show ?thesis .
qed

lemma snapshots_CreateSnapshot:
  "snapshots (CreateSnapshot m st tick force now) =
     keep_last (historySize m) (snapshots m @ [new_snapshot m st tick force now])"
  by (simp add: CreateSnapshot_def Let_def prune_history_drop keep_last_def)

lemma CreateSnapshot_config [simp]:
  "historySize (CreateSnapshot m st tick force now) = historySize m"
  "keyframeInterval (CreateSnapshot m st tick force now) = keyframeInterval m"
  by (simp_all add: CreateSnapshot_def Let_def)

lemma CreateAll_config [simp]:
  "historySize (CreateAll m xs) = historySize m"
  "keyframeInterval (CreateAll m xs) = keyframeInterval m"
  by (induction m xs rule: CreateAll.induct) simp_all

lemma length_created [simp]: "length (created m xs) = length xs"
  by (induction m xs rule: created.induct) simp_all

text \<open>
  The ring: the history holds the last \<open>historySize\<close> of the snapshots it held and the
  snapshots built since, in the order they were built.
\<close>

lemma snapshots_CreateAll:
  "snapshots (CreateAll m xs) =
     (if xs = [] then snapshots m
      else keep_last (historySize m) (snapshots m @ created m xs))"
proof (induction m xs rule: CreateAll.induct)
  case (1 m)
  show ?case by simp
next
  case (2 m st tick now rest)
  let ?m' = "CreateSnapshot m st tick False now"
  show ?case
  proof (cases "rest = []")
    case True
    then show ?thesis by (simp add: snapshots_CreateSnapshot)
  next
    case False
    then have "snapshots (CreateAll m ((st, tick, now) # rest)) =
          keep_last (historySize m) (snapshots ?m' @ created ?m' rest)"
      using "2.IH" by simp
    then show ?thesis
      by (simp add: snapshots_CreateSnapshot keep_last_append)
  qed
qed

lemma ring_retains_latest:
  "snapshots (CreateAll (SnapshotManager0 n) xs) =
     keep_last n (created (SnapshotManager0 n) xs)"
  by (simp add: snapshots_CreateAll) (simp add: SnapshotManager0_def keep_last_def)

lemma ring_count:
  "length (snapshots (CreateAll (SnapshotManager0 n) xs)) = min n (length xs)"
  by (simp add: ring_retains_latest)

lemma created_ticks: "map snapTick (created m xs) = map (\<lambda>(st, tick, now). tick) xs"
  by (induction m xs rule: created.induct) (simp_all add: new_snapshot_def Let_def)

lemma created_states:
  "map state (created m xs) = map (\<lambda>(st, tick, now). Some (copy_GameState st)) xs"
  by (induction m xs rule: created.induct) (simp_all add: new_snapshot_def Let_def)

text \<open>
  The keyframe cadence. The counter of snapshots since the last keyframe stays within the
  interval; a snapshot is a keyframe when the counter has reached the interval, and then
  the counter restarts at 0, so that \<open>keyframeInterval\<close> snapshots lie between two
  keyframes: the stride is \<open>keyframeInterval + 1\<close>.
\<close>

lemma isKeyframe_new_snapshot:
  "isKeyframe (new_snapshot m st tick False now) = ShouldCreateKeyframe m"
  by (simp add: new_snapshot_def Let_def)

lemma counter_CreateSnapshot:
  assumes "unat (snapshotsSinceLastKeyframe m) \<le> unat (keyframeInterval m)"
  shows "ShouldCreateKeyframe m =
           (unat (snapshotsSinceLastKeyframe m) = unat (keyframeInterval m))"
    and "unat (snapshotsSinceLastKeyframe (CreateSnapshot m st tick False now)) =
           Suc (unat (snapshotsSinceLastKeyframe m)) mod Suc (unat (keyframeInterval m))"
proof -
  show k: "ShouldCreateKeyframe m =
           (unat (snapshotsSinceLastKeyframe m) = unat (keyframeInterval m))"
    using assms by (auto simp: ShouldCreateKeyframe_def word_le_nat_alt)
  show "unat (snapshotsSinceLastKeyframe (CreateSnapshot m st tick False now)) =
           Suc (unat (snapshotsSinceLastKeyframe m)) mod Suc (unat (keyframeInterval m))"
  proof (cases "ShouldCreateKeyframe m")
    case True
    then show ?thesis using k
      by (simp add: CreateSnapshot_def Let_def isKeyframe_new_snapshot)
  next
    case False
    then have lt: "unat (snapshotsSinceLastKeyframe m) < unat (keyframeInterval m)"
      using k assms by simp
    moreover have "unat (keyframeInterval m) < 2 ^ 32"
      using unsigned_less [of "keyframeInterval m"] by simp
    ultimately have "unat (snapshotsSinceLastKeyframe m + 1) =
                       Suc (unat (snapshotsSinceLastKeyframe m))"
      by (simp add: unat_word_ariths)
    then show ?thesis using False lt
      by (simp add: CreateSnapshot_def Let_def isKeyframe_new_snapshot)
  qed
qed

lemma keyframes_created:
  "unat (snapshotsSinceLastKeyframe m) \<le> unat (keyframeInterval m) \<Longrightarrow>
   map isKeyframe (created m xs) =
     map (\<lambda>i. (unat (snapshotsSinceLastKeyframe m) + i) mod Suc (unat (keyframeInterval m))
               = unat (keyframeInterval m))
       [0..<length xs]"
proof (induction m xs rule: created.induct)
  case (1 m)
  show ?case by simp
next
  case (2 m st tick now rest)
  let ?m' = "CreateSnapshot m st tick False now"
  let ?c = "unat (snapshotsSinceLastKeyframe m)"
  let ?k = "unat (keyframeInterval m)"
  note step1 = counter_CreateSnapshot(1) [OF "2.prems"]
  have c': "unat (snapshotsSinceLastKeyframe ?m') = Suc ?c mod Suc ?k"
    by (rule counter_CreateSnapshot(2) [OF "2.prems"])
  then have inv: "unat (snapshotsSinceLastKeyframe ?m') \<le> unat (keyframeInterval ?m')"
  proof -
    have "Suc ?c mod Suc ?k < Suc ?k" by (rule mod_less_divisor) simp
    then show ?thesis by (simp only: c' CreateSnapshot_config less_Suc_eq_le)
  qed
  have hd: "isKeyframe (new_snapshot m st tick False now) = ((?c + 0) mod Suc ?k = ?k)"
    using step1 "2.prems" by (simp add: isKeyframe_new_snapshot)
  have tl: "map isKeyframe (created ?m' rest) =
              map (\<lambda>i. (?c + Suc i) mod Suc ?k = ?k) [0..<length rest]"
  proof -
    have "(Suc ?c mod Suc ?k + i) mod Suc ?k = (?c + Suc i) mod Suc ?k" for i
      by (simp add: mod_add_left_eq)
    then show ?thesis using "2.IH" [OF inv] by (simp add: c')
  qed
  show ?case
    unfolding created.simps list.map length_Cons map_upt_Suc hd tl by simp
qed

corollary keyframe_stride:
  "map isKeyframe (created (SetKeyframeInterval (SnapshotManager0 n) k) xs) =
     map (\<lambda>i. Suc (unat k) dvd Suc i) [0..<length xs]"
proof -
  have "(i mod Suc (unat k) = unat k) = (Suc (unat k) dvd Suc i)" for i
    by (metis Suc_eq_plus1 add_diff_cancel_right' dvd_eq_mod_eq_0 lessI mod_Suc mod_less nat.simps(3))
  then show ?thesis
    by (simp add: keyframes_created SetKeyframeInterval_def SnapshotManager0_def)
qed

lemma totals_CreateSnapshot:
  "totalSnapshots (CreateSnapshot m st tick force now) = totalSnapshots m + 1"
  "totalKeyframes (CreateSnapshot m st tick force now) =
     totalKeyframes m + (if isKeyframe (new_snapshot m st tick force now) then 1 else 0)"
  by (simp_all add: CreateSnapshot_def Let_def)

lemma totals_CreateAll:
  "totalSnapshots (CreateAll m xs) = totalSnapshots m + of_nat (length xs)"
  "totalKeyframes (CreateAll m xs) =
     totalKeyframes m + of_nat (length (filter isKeyframe (created m xs)))"
  by (induction m xs rule: CreateAll.induct) (simp_all add: totals_CreateSnapshot)

text \<open>
  C4. The claim: the ring holds the last \<open>min N M\<close> snapshots in insertion order, and
  every \<open>K\<close>th snapshot is a keyframe. The ring is as claimed (\<open>ring_count\<close>,
  \<open>ring_retains_latest\<close>); the cadence is not. With interval 5 and ten snapshots, which
  is the keyframe test of the repository, only the sixth snapshot is a keyframe and the
  count of keyframes is 1, where the test expects 2 and the claim the fifth and the tenth.
\<close>

theorem keyframes_with_interval_5:
  "map isKeyframe (snapshots (CreateAll interval5 ten_worlds)) =
     [False, False, False, False, False, True, False, False, False, False]
   \<and> totalKeyframes (CreateAll interval5 ten_worlds) = 1
   \<and> totalSnapshots (CreateAll interval5 ten_worlds) = 10"
proof -
  have len: "length ten_worlds = 10" by (simp add: ten_worlds_def)
  have i5: "snapshots interval5 = []" "historySize interval5 = 100"
    "snapshotsSinceLastKeyframe interval5 = 0" "keyframeInterval interval5 = 5"
    "totalKeyframes interval5 = 0" "totalSnapshots interval5 = 0"
    by (simp_all add: interval5_def SetKeyframeInterval_def SnapshotManager0_def)
  have upt10: "[0..<10] = [0, 1, 2, 3, 4, 5, 6, 7, 8, 9 :: nat]"
    by (simp add: upt_rec)
  have flags: "map isKeyframe (created interval5 ten_worlds) =
     [False, False, False, False, False, True, False, False, False, False]"
    by (subst keyframes_created) (simp_all add: i5 len upt10)
  have ring: "snapshots (CreateAll interval5 ten_worlds) = created interval5 ten_worlds"
    using len by (subst snapshots_CreateAll) (auto simp: i5 keep_last_def)
  have "length (filter isKeyframe (created interval5 ten_worlds)) =
          length (filter (\<lambda>b. b) (map isKeyframe (created interval5 ten_worlds)))"
    by (simp add: filter_map comp_def)
  then have count: "length (filter isKeyframe (created interval5 ten_worlds)) = 1"
    by (simp add: flags)
  show ?thesis
    by (simp add: ring flags totals_CreateAll i5 len count)
qed

section \<open>Properties of the projectile synchroniser\<close>









section \<open>Properties of the entity interpolator\<close>

subsection \<open>Pruning\<close>

lemma prune_too_old_dropWhile:
  "prune_too_old thr es = dropWhile (\<lambda>e. timestamp e < thr) es"
  by (induction es) simp_all

lemma prune_to_two_suffix:
  "\<exists>k \<le> length es. prune_to_two rt es = drop k es \<and>
       (\<forall>e \<in> set (take k es). timestamp e < rt)"
proof (induction es)
  case Nil
  show ?case by simp
next
  case (Cons e es)
  show ?case
  proof (cases "length (e # es) > 2 \<and> timestamp e < rt")
    case True
    from Cons.IH obtain k where k: "k \<le> length es" "prune_to_two rt es = drop k es"
      "\<forall>e \<in> set (take k es). timestamp e < rt" by blast
    have "Suc k \<le> length (e # es) \<and> prune_to_two rt (e # es) = drop (Suc k) (e # es) \<and>
          (\<forall>x \<in> set (take (Suc k) (e # es)). timestamp x < rt)"
      using True k by simp
    then show ?thesis by blast
  next
    case False
    then have "0 \<le> length (e # es) \<and> prune_to_two rt (e # es) = drop 0 (e # es) \<and>
          (\<forall>x \<in> set (take 0 (e # es)). timestamp x < rt)"
      by auto
    then show ?thesis by blast
  qed
qed

lemma prune_to_two_length: "min 2 (length es) \<le> length (prune_to_two rt es)"
  by (induction es) auto

lemma timeline_of_Update:
  "timeline_of (Update ip now) entityId =
     prune_to_two (GetRenderTimestamp ip now)
       (prune_too_old (GetRenderTimestamp ip now - 1000) (timeline_of ip entityId))"
  by (simp add: timeline_of_def Update_def PruneOldSnapshots_def Let_def split: option.split)

lemmas interpolator_defs = timeline_of_def Update_def PruneOldSnapshots_def
  GetRenderTimestamp_def EntityInterpolator0_def tracking_def state_at_def Let_def

text \<open>
  C7. The claim: pruning removes only entries older than \<open>renderTime - 1000\<close>, and a
  timeline that held at least 2 entries holds at least 2 afterwards; the comments of
  \<open>PruneOldSnapshots\<close> say the same ("older than render time - 1 second", "Keep at least
  2 snapshots for interpolation"). The code does neither. With the default delay of
  100 ms and the clock at 5100 (render time 5000, threshold 4000): the first loop has no
  minimum and empties the timeline with the timestamps 0 and 1; the second loop drops the
  entry of 4500 from the timeline 4500, 4600, 4700, which is not older than the threshold;
  and from the timeline 4800, 4900, 5100, 5200 it drops 4800 and 4900, the entry before
  the render time that the interpolation needs, so that no pair brackets the render time
  any more.
\<close>

theorem Update_breaks_minimum_of_two:
  "length (timeline_of (tracking [state_at 0 0, state_at 1 0]) ''e1'') = 2
   \<and> timeline_of (Update (tracking [state_at 0 0, state_at 1 0]) 5100) ''e1'' = []
   \<and> map timestamp (timeline_of (Update (tracking [state_at 4500 0, state_at 4600 0,
       state_at 4700 0]) 5100) ''e1'') = [4600, 4700]
   \<and> \<not> (4500 :: u64) < 5100 - 100 - 1000
   \<and> map timestamp (timeline_of (Update (tracking [state_at 4800 0, state_at 4900 0,
       state_at 5100 0, state_at 5200 0]) 5100) ''e1'') = [5100, 5200]
   \<and> find_bracket 5000 [state_at 4800 0, state_at 4900 0, state_at 5100 0, state_at 5200 0]
       = Some (state_at 4900 0, state_at 5100 0)
   \<and> find_bracket 5000 [state_at 5100 0, state_at 5200 0] = None"
  by (simp add: interpolator_defs)

text \<open>
  What the two loops do on any timeline: they remove entries only from the front, and every
  entry they remove is older than \<open>renderTime - 1000\<close> or older than \<open>renderTime\<close>; the
  second loop alone never goes below 2 entries.
\<close>

lemma Update_drops_a_prefix:
  fixes ip :: "('u, 'ang) EntityInterpolator"
  shows "\<exists>k \<le> length (timeline_of ip entityId).
     timeline_of (Update ip now) entityId = drop k (timeline_of ip entityId)
     \<and> (\<forall>e \<in> set (take k (timeline_of ip entityId)).
           timestamp e < GetRenderTimestamp ip now - 1000
           \<or> timestamp e < GetRenderTimestamp ip now)
     \<and> (2 \<le> length (dropWhile (\<lambda>e. timestamp e < GetRenderTimestamp ip now - 1000)
                      (timeline_of ip entityId))
          \<longrightarrow> 2 \<le> length (timeline_of (Update ip now) entityId))"
proof -
  define rt where "rt = GetRenderTimestamp ip now"
  define xs where "xs = timeline_of ip entityId"
  define P where "P = (\<lambda>e :: 'ang EntityState. timestamp e < rt - 1000)"
  define j where "j = length (takeWhile P xs)"
  define ys where "ys = dropWhile P xs"
  have new: "timeline_of (Update ip now) entityId = prune_to_two rt ys"
    by (simp add: timeline_of_Update prune_too_old_dropWhile rt_def xs_def P_def ys_def)
  have ys: "ys = drop j xs" unfolding ys_def j_def by (rule dropWhile_eq_drop)
  have "take j xs = takeWhile P xs" unfolding j_def by (rule takeWhile_eq_take [symmetric])
  then have front: "\<forall>e \<in> set (take j xs). P e"
    by (auto dest: set_takeWhileD)
  from prune_to_two_suffix [of ys rt] obtain k where
    k: "k \<le> length ys" "prune_to_two rt ys = drop k ys"
       "\<forall>e \<in> set (take k ys). timestamp e < rt" by blast
  have jl: "j \<le> length xs" unfolding j_def by (rule length_takeWhile_le)
  have le: "k + j \<le> length xs" using k(1) jl by (simp add: ys)
  have eq: "timeline_of (Update ip now) entityId = drop (k + j) xs"
    by (simp add: new k(2)) (simp add: ys)
  have "take (j + k) xs = take j xs @ take k (drop j xs)"
    by (rule take_add)
  then have removed: "\<forall>e \<in> set (take (k + j) xs). P e \<or> timestamp e < rt"
    using front k(3) by (auto simp: ys add.commute)
  have two: "2 \<le> length ys \<longrightarrow> 2 \<le> length (timeline_of (Update ip now) entityId)"
    using prune_to_two_length [of ys rt] by (auto simp: new)
  have "k + j \<le> length xs \<and> timeline_of (Update ip now) entityId = drop (k + j) xs
        \<and> (\<forall>e \<in> set (take (k + j) xs). timestamp e < rt - 1000 \<or> timestamp e < rt)
        \<and> (2 \<le> length (dropWhile (\<lambda>e. timestamp e < rt - 1000) xs)
              \<longrightarrow> 2 \<le> length (timeline_of (Update ip now) entityId))"
    using le eq removed two unfolding P_def ys_def by blast
  then show ?thesis unfolding rt_def xs_def by blast
qed

subsection \<open>Interpolation\<close>

lemma brackets_Cons:
  "brackets rt (a # b # rest) (Suc l) = brackets rt (b # rest) l"
  by (simp add: brackets_def)

lemma brackets_0:
  "brackets rt (a # b # rest) 0 = (timestamp a \<le> rt \<and> rt \<le> timestamp b)"
  by (simp add: brackets_def)

text \<open>The search returns the first bracketing pair, whenever there is one.\<close>

lemma find_bracket_first:
  "brackets rt states j \<Longrightarrow>
     \<exists>i \<le> j. brackets rt states i \<and> (\<forall>l < i. \<not> brackets rt states l)
            \<and> find_bracket rt states = Some (states ! i, states ! Suc i)"
proof (induction rt states arbitrary: j rule: find_bracket.induct)
  case (1 rt a b rest)
  show ?case
  proof (cases "timestamp a \<le> rt \<and> rt \<le> timestamp b")
    case True
    then have "brackets rt (a # b # rest) 0 \<and> (\<forall>l < (0::nat). \<not> brackets rt (a # b # rest) l)
        \<and> find_bracket rt (a # b # rest) = Some ((a # b # rest) ! 0, (a # b # rest) ! Suc 0)"
      by (simp add: brackets_0)
    then show ?thesis by blast
  next
    case False
    then have n0: "\<not> brackets rt (a # b # rest) 0" by (simp add: brackets_0)
    with "1.prems" obtain j' where j: "j = Suc j'" by (cases j) auto
    then have "brackets rt (b # rest) j'" using "1.prems" by (simp add: brackets_Cons)
    from "1.IH" [OF False this] obtain i where
      i: "i \<le> j'" "brackets rt (b # rest) i" "\<forall>l < i. \<not> brackets rt (b # rest) l"
         "find_bracket rt (b # rest) = Some ((b # rest) ! i, (b # rest) ! Suc i)" by blast
    have first: "\<forall>l < Suc i. \<not> brackets rt (a # b # rest) l"
    proof (intro allI impI)
      fix l assume "l < Suc i"
      then show "\<not> brackets rt (a # b # rest) l"
        using n0 i(3) by (cases l) (simp_all add: brackets_Cons)
    qed
    have "Suc i \<le> j \<and> brackets rt (a # b # rest) (Suc i)
        \<and> (\<forall>l < Suc i. \<not> brackets rt (a # b # rest) l)
        \<and> find_bracket rt (a # b # rest) =
            Some ((a # b # rest) ! Suc i, (a # b # rest) ! Suc (Suc i))"
      using i first False j by (auto simp: brackets_Cons)
    then show ?thesis by blast
  qed
next
  case (2 rt a)
  then show ?case by (simp add: brackets_def)
next
  case (3 rt)
  then show ?case by (simp add: brackets_def)
qed

lemma Length_scale: "0 \<le> s \<Longrightarrow> Length (point_scale a s) = Length a * s"
proof -
  assume s: "0 \<le> s"
  have "X a * s * (X a * s) + Y a * s * (Y a * s) = (X a * X a + Y a * Y a) * (s * s)"
    by (simp add: algebra_simps)
  then have "Length (point_scale a s) = sqrt ((X a * X a + Y a * Y a) * (s * s))"
    by (simp add: Length_def point_scale_def)
  also have "\<dots> = sqrt (X a * X a + Y a * Y a) * sqrt (s * s)"
    by (rule real_sqrt_mult)
  also have "sqrt (s * s) = s" using s by simp
  finally show ?thesis by (simp add: Length_def)
qed

lemma point_add_sub: "point_sub (point_add a d) a = d"
  by (simp add: point_sub_def point_add_def)

text \<open>
  Inside a bracket with distinct timestamps the factor is the quotient of the two distances
  in time, lies between 0 and 1, and the clamp leaves it as it is.
\<close>

lemma alpha_in_bracket:
  fixes rt b a :: u64
  assumes "b \<le> rt" "rt \<le> a" "a \<noteq> b"
  defines "alpha \<equiv> real (unat (rt - b)) / real (unat (a - b))"
  shows "alpha = (real (unat rt) - real (unat b)) / (real (unat a) - real (unat b))"
    and "0 \<le> alpha" and "alpha \<le> 1" and "max 0 (min 1 alpha) = alpha"
proof -
  have ba: "b \<le> a" using assms(1,2) by simp
  have n1: "unat (rt - b) = unat rt - unat b" using assms(1) by (simp add: unat_sub)
  have n2: "unat (a - b) = unat a - unat b" using ba by (simp add: unat_sub)
  have le: "unat b \<le> unat rt" "unat rt \<le> unat a"
    using assms(1,2) by (simp_all add: word_le_nat_alt)
  have "b < a" using ba assms(3) by simp
  then have lt: "unat b < unat a" by (simp add: word_less_nat_alt)
  show 1: "alpha = (real (unat rt) - real (unat b)) / (real (unat a) - real (unat b))"
    unfolding alpha_def n1 n2 using le by (simp add: of_nat_diff del: of_nat_unat)
  show 2: "0 \<le> alpha" unfolding alpha_def by (simp del: of_nat_unat)
  show 3: "alpha \<le> 1"
    unfolding alpha_def n1 n2 using le lt by (simp del: of_nat_unat)
  show "max 0 (min 1 alpha) = alpha" using 2 3 by simp
qed

lemma wrap_diff_shortest:
  "\<bar>d\<bar> \<le> 360 \<Longrightarrow> \<bar>wrap_diff d\<bar> \<le> 180
     \<and> (wrap_diff d = d \<or> wrap_diff d = d - 360 \<or> wrap_diff d = d + 360)"
  by (auto simp: wrap_diff_def)

lemma find_bracket_length: "find_bracket rt states = Some p \<Longrightarrow> 2 \<le> length states"
  by (induction rt states rule: find_bracket.induct) simp_all

lemma GetInterpolatedState_bracket:
  assumes "entityStates ip entityId = Some h"
      and "find_bracket (GetRenderTimestamp ip now) (timeline h) = Some (before, after)"
  shows "fst (GetInterpolatedState Degrees Angle ip entityId now) =
           (if timestamp after = timestamp before then Some after
            else Some (Interpolate Degrees Angle before after
                   (max 0 (min 1 (real (unat (GetRenderTimestamp ip now - timestamp before))
                                   / real (unat (timestamp after - timestamp before)))))))"
proof -
  have "\<not> length (timeline h) < 2"
    using find_bracket_length [OF assms(2)] by simp
  then show ?thesis
    using assms by (simp add: GetInterpolatedState_def Let_def del: of_nat_unat)
qed

lemma Interpolate_fields:
  "position (Interpolate Degrees Angle from to alpha) =
     point_add (position from) (point_scale (point_sub (position to) (position from)) alpha)"
  "velocity (Interpolate Degrees Angle from to alpha) =
     point_add (velocity from) (point_scale (point_sub (velocity to) (velocity from)) alpha)"
  "facing (Interpolate Degrees Angle from to alpha) =
     Angle (Degrees (facing from)
            + wrap_diff (Degrees (facing to) - Degrees (facing from)) * alpha)"
  by (simp_all add: Interpolate_def Let_def)

text \<open>
  C6, as stated: for an adjacent pair that brackets the render time, the returned position
  lies on the segment of that pair at the distance given by the pair's factor. In the
  timeline with the timestamps 1000, 1100, 1100, 1200 and the positions 0, 10, 20, 30 on
  the x axis, at render time 1100 the pair at index 2 (1100 and 1200, from 20 to 30)
  brackets the render time with factor 0; the function blends the first bracketing pair
  (index 0) and returns the position 10, at distance 10 from the position 20.
\<close>

theorem interpolation_later_bracket_counterexample:
  "brackets (GetRenderTimestamp (tracking same_ms) 1200) same_ms 2
   \<and> GetRenderTimestamp (tracking same_ms) 1200 = 1100
   \<and> map_option position
       (fst (GetInterpolatedState (\<lambda>a. a) (\<lambda>d. d) (tracking same_ms) ''e1'' 1200)) =
       Some \<lparr>X = 10, Y = 0\<rparr>
   \<and> position (same_ms ! 2) = \<lparr>X = 20, Y = 0\<rparr>
   \<and> position (same_ms ! 3) = \<lparr>X = 30, Y = 0\<rparr>
   \<and> Length (point_sub \<lparr>X = 10, Y = 0\<rparr> (position (same_ms ! 2))) = 10
   \<and> Length (point_sub (position (same_ms ! 3)) (position (same_ms ! 2)))
       * max 0 (min 1 ((1100 - 1100) / (1200 - 1100))) = 0"
  by (simp add: brackets_def same_ms_def state_at_def tracking_def EntityInterpolator0_def
        GetRenderTimestamp_def GetInterpolatedState_def Interpolate_def Let_def
        point_add_def point_sub_def point_scale_def Length_def)

text \<open>
  C6, amended: if some adjacent pair of the timeline brackets the render time, the function
  uses the first such pair (before, after) in timeline order. If the two timestamps are
  equal it returns the state \<open>after\<close>. Otherwise, with
  \<open>\<alpha> = (T - before.timestamp) / (after.timestamp - before.timestamp)\<close>, which lies in
  \<open>[0, 1]\<close>, the returned position is \<open>before + (after - before) * \<alpha>\<close>, at the
  distance \<open>|after - before| * \<alpha>\<close> from the position of \<open>before\<close>; the velocity blends
  with the same factor; and the facing is the facing of \<open>before\<close> plus \<open>\<alpha>\<close> times the
  difference of the two facings in degrees, taken along the shorter arc (at most 180
  degrees, for facings at most a full turn apart). Doubles are read as real numbers.
\<close>

theorem interpolation_uses_first_bracket:
  fixes ip :: "('u, 'ang) EntityInterpolator"
  assumes "brackets (GetRenderTimestamp ip now) (timeline_of ip entityId) j"
  shows "\<exists>i \<le> j.
      brackets (GetRenderTimestamp ip now) (timeline_of ip entityId) i
      \<and> (\<forall>l < i. \<not> brackets (GetRenderTimestamp ip now) (timeline_of ip entityId) l)
      \<and> (let before = timeline_of ip entityId ! i;
              after = timeline_of ip entityId ! Suc i;
              alpha = (real (unat (GetRenderTimestamp ip now)) - real (unat (timestamp before)))
                      / (real (unat (timestamp after)) - real (unat (timestamp before)));
              turn = wrap_diff (Degrees (facing after) - Degrees (facing before))
          in if timestamp after = timestamp before
             then fst (GetInterpolatedState Degrees Angle ip entityId now) = Some after
             else 0 \<le> alpha \<and> alpha \<le> 1
               \<and> (\<exists>r. fst (GetInterpolatedState Degrees Angle ip entityId now) = Some r
                     \<and> position r =
                         point_add (position before)
                           (point_scale (point_sub (position after) (position before)) alpha)
                     \<and> Length (point_sub (position r) (position before)) =
                         Length (point_sub (position after) (position before)) * alpha
                     \<and> velocity r =
                         point_add (velocity before)
                           (point_scale (point_sub (velocity after) (velocity before)) alpha)
                     \<and> facing r = Angle (Degrees (facing before) + turn * alpha))
               \<and> (\<bar>Degrees (facing after) - Degrees (facing before)\<bar> \<le> 360
                     \<longrightarrow> \<bar>turn\<bar> \<le> 180))"
proof -
  define rt where "rt = GetRenderTimestamp ip now"
  define states where "states = timeline_of ip entityId"
  have br: "brackets rt states j" using assms by (simp add: rt_def states_def)
  then have "states \<noteq> []" by (auto simp: brackets_def)
  then obtain h where h: "entityStates ip entityId = Some h" "timeline h = states"
    by (auto simp: states_def timeline_of_def split: option.splits)
  from find_bracket_first [OF br] obtain i where
    i: "i \<le> j" "brackets rt states i" "\<forall>l < i. \<not> brackets rt states l"
       "find_bracket rt states = Some (states ! i, states ! Suc i)" by blast
  define before where "before = states ! i"
  define after where "after = states ! Suc i"
  define alpha where "alpha = (real (unat rt) - real (unat (timestamp before)))
                      / (real (unat (timestamp after)) - real (unat (timestamp before)))"
  have ts: "timestamp before \<le> rt" "rt \<le> timestamp after"
    using i(2) by (simp_all add: brackets_def before_def after_def)
  have res: "fst (GetInterpolatedState Degrees Angle ip entityId now) =
           (if timestamp after = timestamp before then Some after
            else Some (Interpolate Degrees Angle before after
                   (max 0 (min 1 (real (unat (rt - timestamp before))
                                   / real (unat (timestamp after - timestamp before)))))))"
    using GetInterpolatedState_bracket [OF h(1), of now before after Degrees Angle] i(4)
    by (simp add: h(2) rt_def before_def after_def)
  have body: "if timestamp after = timestamp before
             then fst (GetInterpolatedState Degrees Angle ip entityId now) = Some after
             else 0 \<le> alpha \<and> alpha \<le> 1
               \<and> (\<exists>r. fst (GetInterpolatedState Degrees Angle ip entityId now) = Some r
                     \<and> position r =
                         point_add (position before)
                           (point_scale (point_sub (position after) (position before)) alpha)
                     \<and> Length (point_sub (position r) (position before)) =
                         Length (point_sub (position after) (position before)) * alpha
                     \<and> velocity r =
                         point_add (velocity before)
                           (point_scale (point_sub (velocity after) (velocity before)) alpha)
                     \<and> facing r = Angle (Degrees (facing before)
                         + wrap_diff (Degrees (facing after) - Degrees (facing before)) * alpha))
               \<and> (\<bar>Degrees (facing after) - Degrees (facing before)\<bar> \<le> 360
                     \<longrightarrow> \<bar>wrap_diff (Degrees (facing after) - Degrees (facing before))\<bar> \<le> 180)"
  proof (cases "timestamp after = timestamp before")
    case True
    then show ?thesis using res by simp
  next
    case False
    note a = alpha_in_bracket [OF ts False]
    have clamp: "max 0 (min 1 (real (unat (rt - timestamp before))
                   / real (unat (timestamp after - timestamp before)))) = alpha"
      using a(1) a(4) by (simp only: alpha_def)
    have a01: "0 \<le> alpha" "alpha \<le> 1" using a(1) a(2) a(3) by (simp_all only: alpha_def)
    define r where "r = Interpolate Degrees Angle before after alpha"
    have r: "fst (GetInterpolatedState Degrees Angle ip entityId now) = Some r"
      using res False by (simp only: clamp r_def if_False)
    have pos: "position r = point_add (position before)
                 (point_scale (point_sub (position after) (position before)) alpha)"
      by (simp add: r_def Interpolate_fields)
    have dist: "Length (point_sub (position r) (position before)) =
                  Length (point_sub (position after) (position before)) * alpha"
      by (simp only: pos point_add_sub Length_scale [OF a01(1)])
    have vel: "velocity r = point_add (velocity before)
                 (point_scale (point_sub (velocity after) (velocity before)) alpha)"
      and fac: "facing r = Angle (Degrees (facing before)
                 + wrap_diff (Degrees (facing after) - Degrees (facing before)) * alpha)"
      by (simp_all add: r_def Interpolate_fields)
    have arc: "\<bar>Degrees (facing after) - Degrees (facing before)\<bar> \<le> 360
                 \<longrightarrow> \<bar>wrap_diff (Degrees (facing after) - Degrees (facing before))\<bar> \<le> 180"
      using wrap_diff_shortest by blast
    show ?thesis using False a01 r pos dist vel fac arc by auto
  qed
  have "i \<le> j \<and> brackets rt states i \<and> (\<forall>l < i. \<not> brackets rt states l)
      \<and> (let before = states ! i; after = states ! Suc i;
              alpha = (real (unat rt) - real (unat (timestamp before)))
                      / (real (unat (timestamp after)) - real (unat (timestamp before)));
              turn = wrap_diff (Degrees (facing after) - Degrees (facing before))
          in if timestamp after = timestamp before
             then fst (GetInterpolatedState Degrees Angle ip entityId now) = Some after
             else 0 \<le> alpha \<and> alpha \<le> 1
               \<and> (\<exists>r. fst (GetInterpolatedState Degrees Angle ip entityId now) = Some r
                     \<and> position r =
                         point_add (position before)
                           (point_scale (point_sub (position after) (position before)) alpha)
                     \<and> Length (point_sub (position r) (position before)) =
                         Length (point_sub (position after) (position before)) * alpha
                     \<and> velocity r =
                         point_add (velocity before)
                           (point_scale (point_sub (velocity after) (velocity before)) alpha)
                     \<and> facing r = Angle (Degrees (facing before) + turn * alpha))
               \<and> (\<bar>Degrees (facing after) - Degrees (facing before)\<bar> \<le> 360
                     \<longrightarrow> \<bar>turn\<bar> \<le> 180))"
    unfolding Let_def using i(1,2,3) body
    by (simp only: before_def after_def alpha_def) 
  then show ?thesis unfolding rt_def states_def by blast
qed

text \<open>
  The scenario of the specification: states captured at 1000 ms at x = 0 and at 1100 ms
  at x = 10, delay 100 ms, clock at 1150 ms; the render time is 1050, the factor one half
  and the position x = 5.
\<close>

theorem interpolation_uses_first_bracket_witness:
  "map_option position
     (fst (GetInterpolatedState (\<lambda>a. a) (\<lambda>d. d)
        (tracking [state_at 1000 0, state_at 1100 10]) ''e1'' 1150)) =
     Some \<lparr>X = 5, Y = 0\<rparr>"
proof -
  let ?ip = "tracking [state_at 1000 0, state_at 1100 10]"
  have tl: "timeline_of ?ip ''e1'' = [state_at 1000 0, state_at 1100 10]"
    by (simp add: timeline_of_def tracking_def)
  have rt: "GetRenderTimestamp ?ip 1150 = 1050"
    by (simp add: GetRenderTimestamp_def tracking_def EntityInterpolator0_def)
  have br: "brackets (GetRenderTimestamp ?ip 1150) (timeline_of ?ip ''e1'') 0"
    unfolding tl rt by (simp add: brackets_def state_at_def)
  from interpolation_uses_first_bracket [OF br, of "\<lambda>a. a" "\<lambda>d. d"]
  obtain r where "fst (GetInterpolatedState (\<lambda>a. a) (\<lambda>d. d) ?ip ''e1'' 1150) = Some r"
    and "position r = \<lparr>X = 5, Y = 0\<rparr>"
    unfolding tl rt Let_def
    by (auto simp: state_at_def point_add_def point_sub_def point_scale_def)
  then show ?thesis by simp
qed

section \<open>Properties of the client reconciliation\<close>

lemma Length_along_x: "Length (point_sub (at_xy x1 y) (at_xy x0 y)) = \<bar>x1 - x0\<bar>"
  by (simp add: Length_def point_sub_def at_xy_def)

text \<open>
  C5. With \<open>error = serverPos - predictedPos\<close> and its length \<open>m\<close>, \<open>ReconcilePosition\<close>
  takes one of three branches: for \<open>m\<close> below the error threshold it zeroes the error, sets
  the progress to 1 and changes no counter; else for \<open>m\<close> above the snap threshold it
  zeroes the error, sets the progress to 1 and adds 1 to the snap counter; otherwise it
  keeps the error, sets the progress to 0 and adds 1 to the reconciliation counter. In
  every branch the average error becomes \<open>0.1 * m + 0.9 *\<close> the old average. Doubles are
  read as real numbers; the counters are 64-bit.
\<close>

theorem ReconcilePosition_branches:
  "averageError (ReconcilePosition r predictedPos serverPos) =
       (1 / 10) * Length (point_sub serverPos predictedPos) + (1 - 1 / 10) * averageError r
   \<and> (Length (point_sub serverPos predictedPos) < errorThresholdPx r \<longrightarrow>
         positionError (ReconcilePosition r predictedPos serverPos) = Point0
         \<and> positionCorrectionProgress (ReconcilePosition r predictedPos serverPos) = 1
         \<and> totalSnaps (ReconcilePosition r predictedPos serverPos) = totalSnaps r
         \<and> totalReconciliations (ReconcilePosition r predictedPos serverPos) =
             totalReconciliations r)
   \<and> (\<not> Length (point_sub serverPos predictedPos) < errorThresholdPx r
       \<and> Length (point_sub serverPos predictedPos) > snapThresholdPx r \<longrightarrow>
         positionError (ReconcilePosition r predictedPos serverPos) = Point0
         \<and> positionCorrectionProgress (ReconcilePosition r predictedPos serverPos) = 1
         \<and> totalSnaps (ReconcilePosition r predictedPos serverPos) = totalSnaps r + 1
         \<and> totalReconciliations (ReconcilePosition r predictedPos serverPos) =
             totalReconciliations r)
   \<and> (\<not> Length (point_sub serverPos predictedPos) < errorThresholdPx r
       \<and> \<not> Length (point_sub serverPos predictedPos) > snapThresholdPx r \<longrightarrow>
         positionError (ReconcilePosition r predictedPos serverPos) =
             point_sub serverPos predictedPos
         \<and> positionCorrectionProgress (ReconcilePosition r predictedPos serverPos) = 0
         \<and> totalReconciliations (ReconcilePosition r predictedPos serverPos) =
             totalReconciliations r + 1
         \<and> totalSnaps (ReconcilePosition r predictedPos serverPos) = totalSnaps r)"
  by (simp add: ReconcilePosition_def IsSignificantError_def Let_def not_le)

text \<open>
  The scenarios of the specification, with the thresholds 1 and 500: an error of 50 starts
  a gradual correction, an error of 600 snaps, and an error of one half is ignored.
\<close>

theorem ReconcilePosition_branches_witness:
  "positionCorrectionProgress
      (ReconcilePosition ClientReconciliation0 (at_xy 100 100) (at_xy 150 100)) = 0
   \<and> totalReconciliations
      (ReconcilePosition ClientReconciliation0 (at_xy 100 100) (at_xy 150 100)) = 1
   \<and> positionCorrectionProgress
      (ReconcilePosition ClientReconciliation0 (at_xy 100 100) (at_xy 700 100)) = 1
   \<and> totalSnaps
      (ReconcilePosition ClientReconciliation0 (at_xy 100 100) (at_xy 700 100)) = 1
   \<and> positionCorrectionProgress
      (ReconcilePosition ClientReconciliation0 (at_xy 100 100) (at_xy (201 / 2) 100)) = 1
   \<and> totalReconciliations
      (ReconcilePosition ClientReconciliation0 (at_xy 100 100) (at_xy (201 / 2) 100)) = 0
   \<and> totalSnaps
      (ReconcilePosition ClientReconciliation0 (at_xy 100 100) (at_xy (201 / 2) 100)) = 0"
proof -
  have thr: "errorThresholdPx ClientReconciliation0 = 1"
    "snapThresholdPx ClientReconciliation0 = 500"
    "totalSnaps ClientReconciliation0 = 0" "totalReconciliations ClientReconciliation0 = 0"
    by (simp_all add: ClientReconciliation0_def)
  have smooth: "\<not> Length (point_sub (at_xy 150 100) (at_xy 100 100))
                    < errorThresholdPx ClientReconciliation0
      \<and> \<not> Length (point_sub (at_xy 150 100) (at_xy 100 100))
            > snapThresholdPx ClientReconciliation0"
    by (simp add: Length_along_x thr)
  have snap: "\<not> Length (point_sub (at_xy 700 100) (at_xy 100 100))
                    < errorThresholdPx ClientReconciliation0
      \<and> Length (point_sub (at_xy 700 100) (at_xy 100 100))
            > snapThresholdPx ClientReconciliation0"
    by (simp add: Length_along_x thr)
  have small: "Length (point_sub (at_xy (201 / 2) 100) (at_xy 100 100))
                 < errorThresholdPx ClientReconciliation0"
    by (simp add: Length_along_x thr)
  show ?thesis
    using ReconcilePosition_branches [of ClientReconciliation0 "at_xy 100 100" "at_xy 150 100"]
      ReconcilePosition_branches [of ClientReconciliation0 "at_xy 100 100" "at_xy 700 100"]
      ReconcilePosition_branches [of ClientReconciliation0 "at_xy 100 100" "at_xy (201 / 2) 100"]
      smooth snap small
    by (simp add: thr)
qed

end
